theory Spec2Isabelle
  imports Complex_Main "HOL-Library.Sublist"
begin

section \<open>String primitives of the JavaScript runtime\<close>

text \<open>
  Strings are lists of characters. \<open>indexOf\<close> and \<open>lastIndexOf\<close> return \<open>None\<close> where
  JavaScript returns \<open>-1\<close>; \<open>slice\<close> takes integer bounds, a negative bound counting from
  the end, both bounds clamped to the string, as \<open>String.prototype.slice\<close> does.
\<close>

definition indexOf :: "string \<Rightarrow> char \<Rightarrow> nat \<Rightarrow> nat option" where
  "indexOf buf c from =
     (let rest = drop from buf in
      if c \<in> set rest then Some (from + length (takeWhile (\<lambda>x. x \<noteq> c) rest)) else None)"

definition lastIndexOf :: "string \<Rightarrow> char \<Rightarrow> nat option" where
  "lastIndexOf buf c =
     (if c \<in> set buf
      then Some (length buf - Suc (length (takeWhile (\<lambda>x. x \<noteq> c) (rev buf))))
      else None)"

definition slice :: "string \<Rightarrow> int \<Rightarrow> int \<Rightarrow> string" where
  "slice s b e =
     (let n = int (length s);
          from = (if b < 0 then max (n + b) 0 else min b n);
          to = (if e < 0 then max (n + e) 0 else min e n)
      in take (nat (to - from)) (drop (nat from) s))"

definition slice_from :: "string \<Rightarrow> int \<Rightarrow> string" where
  "slice_from s b = slice s b (int (length s))"

text \<open>
  \<open>split sep s\<close> is \<open>s.split(sep)\<close> for a separator of one character: it always returns
  at least one part (the empty string splits into one empty part), so the second branch
  of the \<open>case\<close> below is never taken. \<open>join sep ps\<close> is \<open>ps.join(sep)\<close>.
\<close>

fun split :: "char \<Rightarrow> string \<Rightarrow> string list" where
  "split sep [] = [[]]"
| "split sep (c # cs) =
     (if c = sep then [] # split sep cs
      else (case split sep cs of p # ps \<Rightarrow> (c # p) # ps | [] \<Rightarrow> [[c]]))"

fun join :: "string \<Rightarrow> string list \<Rightarrow> string" where
  "join sep [] = []"
| "join sep [p] = p"
| "join sep (p # q # ps) = p @ sep @ join sep (q # ps)"

section \<open>Frame extraction\<close>

record extracted =
  frames :: "string list"
  remainder :: string

lemma indexOf_bounds:
  "indexOf buf c from = Some i \<Longrightarrow> from \<le> i \<and> i < length buf \<and> buf ! i = c"
proof -
  assume a: "indexOf buf c from = Some i"
  let ?rest = "drop from buf"
  let ?k = "length (takeWhile (\<lambda>x. x \<noteq> c) ?rest)"
  from a have mem: "c \<in> set ?rest" and i: "i = from + ?k"
    by (auto simp: indexOf_def Let_def split: if_splits)
  from mem have "dropWhile (\<lambda>x. x \<noteq> c) ?rest \<noteq> []"
    by (auto simp: dropWhile_eq_Nil_conv)
  moreover have "length ?rest = ?k + length (dropWhile (\<lambda>x. x \<noteq> c) ?rest)"
    by (metis length_append takeWhile_dropWhile_id)
  ultimately have k: "?k < length ?rest" by simp
  then have "?rest ! ?k = c"
    using nth_length_takeWhile [of "\<lambda>x. x \<noteq> c" ?rest] by simp
  with k i show ?thesis by (auto simp: nth_drop)
qed

text \<open>
  The \<open>while (start !== -1)\<close> loop of \<open>extractFrames\<close>: the loop state is the current
  \<open>start\<close> (\<open>None\<close> for \<open>-1\<close>) and the array \<open>fs\<close> of frames pushed so far.
\<close>

function frames_loop :: "string \<Rightarrow> nat option \<Rightarrow> string list \<Rightarrow> string list" where
  "frames_loop buf None fs = fs"
| "frames_loop buf (Some start) fs =
     (case indexOf buf CHR '']'' (start + 1) of
        None \<Rightarrow> fs
      | Some end \<Rightarrow>
          frames_loop buf (indexOf buf CHR ''['' (end + 1))
            (fs @ [slice buf (int start) (int end + 1)]))"
  by pat_completeness auto
termination
proof (relation "measure (\<lambda>(buf, start, fs).
          case start of None \<Rightarrow> 0 | Some s \<Rightarrow> Suc (length buf - s))")
  show "wf (measure (\<lambda>(buf, start, fs).
          case start of None \<Rightarrow> 0 | Some s \<Rightarrow> Suc (length buf - s)))"
    by simp
next
  fix buf :: string and start :: nat and fs :: "string list" and e :: nat
  assume e: "indexOf buf CHR '']'' (start + 1) = Some e"
  show "((buf, indexOf buf CHR ''['' (e + 1), fs @ [slice buf (int start) (int e + 1)]),
         (buf, Some start, fs))
        \<in> measure (\<lambda>(buf, start, fs).
             case start of None \<Rightarrow> 0 | Some s \<Rightarrow> Suc (length buf - s))"
  proof (cases "indexOf buf CHR ''['' (e + 1)")
    case None
    then show ?thesis by simp
  next
    case (Some s')
    from indexOf_bounds [OF e] indexOf_bounds [OF Some] have "start < s'" "s' < length buf"
      by auto
    then show ?thesis using Some by simp
  qed
qed

definition extractFrames :: "string \<Rightarrow> extracted" where
  "extractFrames buf =
     (let fs = frames_loop buf (indexOf buf CHR ''['' 0) [];
          remainderIdx = lastIndexOf buf CHR '']''
      in \<lparr> frames = fs,
           remainder = (case remainderIdx of
                          None \<Rightarrow> buf
                        | Some i \<Rightarrow> slice_from buf (int i + 1)) \<rparr>)"

section \<open>Numbers of the JavaScript runtime\<close>

text \<open>
  A JavaScript number is an IEEE 754 binary64 value. \<open>Fin q\<close> is the finite double whose
  value is the rational \<open>q\<close>; the two zeros are not told apart (the program never
  distinguishes them: \<open>-0 === 0\<close>, \<open>String(-0)\<close> is \<open>0\<close> and \<open>(-0).toFixed(2)\<close> is
  \<open>0.00\<close>). \<open>round64\<close> rounds a rational to the nearest double, ties to the even
  significand, with gradual underflow and overflow to the infinities; every arithmetic
  operation and every conversion from a string rounds its exact result with it.
\<close>

datatype jsnum = NaN | PosInf | NegInf | Fin rat

text \<open>
  \<open>digit_count b n\<close> is the number of digits of \<open>n\<close> in base \<open>b\<close>, and \<open>ilog b x\<close> the
  integer part of the logarithm of a positive rational.
\<close>

function digit_count :: "int \<Rightarrow> int \<Rightarrow> int" where
  "digit_count b n = (if 1 < b \<and> 0 < n then 1 + digit_count b (n div b) else 0)"
  by pat_completeness auto
termination
proof (relation "measure (\<lambda>(b, n). nat n)")
  show "wf (measure (\<lambda>(b, n). nat n))" by simp
next
  fix b n :: int
  assume "1 < b \<and> 0 < n"
  then have "n div b < n" by (simp add: int_div_less_self)
  then show "((b, n div b), (b, n)) \<in> measure (\<lambda>(b, n). nat n)"
    using \<open>1 < b \<and> 0 < n\<close> by simp
qed

declare digit_count.simps [simp del]

definition ilog :: "int \<Rightarrow> rat \<Rightarrow> int" where
  "ilog b x =
     (let (p, q) = quotient_of x;
          e = digit_count b p - digit_count b q
      in if of_int b powi e \<le> x then e else e - 1)"

definition round_half_even :: "rat \<Rightarrow> int" where
  "round_half_even x =
     (let f = \<lfloor>x\<rfloor>; d = x - of_int f
      in if d < 1 / 2 then f else if 1 / 2 < d then f + 1 else if even f then f else f + 1)"

definition round64 :: "rat \<Rightarrow> jsnum" where
  "round64 x =
     (if x = 0 then Fin 0
      else
        let a = \<bar>x\<bar>;
            e = max (ilog 2 a) (- 1022);
            n = round_half_even (a * 2 powi (52 - e))
        in if 1023 < e \<or> (e = 1023 \<and> n = 2 ^ 53)
           then (if 0 < x then PosInf else NegInf)
           else Fin (sgn x * of_int n * 2 powi (e - 52)))"

text \<open>
  \<open>toNumber\<close> is \<open>Number(s)\<close> on a string (ECMAScript's StringToNumber): white space is
  trimmed; the empty string is \<open>0\<close>; then a hexadecimal, octal or binary integer with its
  prefix, or a signed decimal literal with optional fraction and exponent, or a signed
  \<open>Infinity\<close>; anything else is \<open>NaN\<close>. Characters are the 8-bit characters of HOL, so
  the white space characters beyond U+00FF are outside the model.
\<close>

definition is_digit :: "char \<Rightarrow> bool" where
  "is_digit c \<longleftrightarrow> c \<in> set ''0123456789''"

definition digit_value :: "char \<Rightarrow> nat option" where
  "digit_value c =
     (if is_digit c then Some (of_char c - 48)
      else if c \<in> set ''abcdef'' then Some (of_char c - 87)
      else if c \<in> set ''ABCDEF'' then Some (of_char c - 55)
      else None)"

fun radix_number :: "nat \<Rightarrow> nat \<Rightarrow> string \<Rightarrow> nat option" where
  "radix_number b acc [] = Some acc"
| "radix_number b acc (c # cs) =
     (case digit_value c of
        None \<Rightarrow> None
      | Some d \<Rightarrow> if d < b then radix_number b (b * acc + d) cs else None)"

definition digits_number :: "nat \<Rightarrow> string \<Rightarrow> nat option" where
  "digits_number b ds = (if ds = [] then None else radix_number b 0 ds)"

definition is_white_space :: "char \<Rightarrow> bool" where
  "is_white_space c \<longleftrightarrow> (of_char c :: nat) \<in> {9, 10, 11, 12, 13, 32, 160}"

definition trim :: "string \<Rightarrow> string" where
  "trim s = rev (dropWhile is_white_space (rev (dropWhile is_white_space s)))"

definition split_sign :: "string \<Rightarrow> bool \<times> string" where
  "split_sign s =
     (case s of
        c # r \<Rightarrow> if c = CHR ''-'' then (True, r) else if c = CHR ''+'' then (False, r) else (False, s)
      | [] \<Rightarrow> (False, s))"

definition exponent_part :: "string \<Rightarrow> int option" where
  "exponent_part s =
     (case s of
        [] \<Rightarrow> Some 0
      | c # r \<Rightarrow>
          if c = CHR ''e'' \<or> c = CHR ''E''
          then (let (neg, ds) = split_sign r
                in case digits_number 10 ds of
                     None \<Rightarrow> None
                   | Some n \<Rightarrow> Some (if neg then - int n else int n))
          else None)"

definition unsigned_decimal :: "string \<Rightarrow> rat option" where
  "unsigned_decimal s =
     (let ip = takeWhile is_digit s;
          r1 = dropWhile is_digit s;
          (fp, r2) = (case r1 of
                        c # r \<Rightarrow> if c = CHR ''.'' then (takeWhile is_digit r, dropWhile is_digit r)
                                 else ([], r1)
                      | [] \<Rightarrow> ([], r1))
      in if ip = [] \<and> fp = [] then None
         else case (digits_number 10 (ip @ fp), exponent_part r2) of
                (Some n, Some e) \<Rightarrow> Some (of_nat n * 10 powi (e - int (length fp)))
              | _ \<Rightarrow> None)"

definition prefixed_integer :: "string \<Rightarrow> nat option" where
  "prefixed_integer s =
     (case s of
        z # x # ds \<Rightarrow>
          if z \<noteq> CHR ''0'' then None
          else if x = CHR ''x'' \<or> x = CHR ''X'' then digits_number 16 ds
          else if x = CHR ''o'' \<or> x = CHR ''O'' then digits_number 8 ds
          else if x = CHR ''b'' \<or> x = CHR ''B'' then digits_number 2 ds
          else None
      | _ \<Rightarrow> None)"

definition toNumber :: "string \<Rightarrow> jsnum" where
  "toNumber s =
     (let t = trim s
      in if t = [] then Fin 0
         else case prefixed_integer t of
                Some n \<Rightarrow> round64 (of_nat n)
              | None \<Rightarrow>
                  (let (neg, u) = split_sign t
                   in if u = ''Infinity'' then (if neg then NegInf else PosInf)
                      else case unsigned_decimal u of
                             None \<Rightarrow> NaN
                           | Some q \<Rightarrow> round64 (if neg then - q else q)))"
text \<open>Arithmetic on numbers: negation, \<open>Math.abs\<close>, addition and multiplication.\<close>

fun num_neg :: "jsnum \<Rightarrow> jsnum" where
  "num_neg NaN = NaN"
| "num_neg PosInf = NegInf"
| "num_neg NegInf = PosInf"
| "num_neg (Fin q) = Fin (- q)"

fun Math_abs :: "jsnum \<Rightarrow> jsnum" where
  "Math_abs NaN = NaN"
| "Math_abs PosInf = PosInf"
| "Math_abs NegInf = PosInf"
| "Math_abs (Fin q) = Fin \<bar>q\<bar>"

fun num_mul :: "jsnum \<Rightarrow> jsnum \<Rightarrow> jsnum" where
  "num_mul (Fin a) (Fin b) = round64 (a * b)"
| "num_mul NaN _ = NaN"
| "num_mul _ NaN = NaN"
| "num_mul (Fin a) PosInf = (if a = 0 then NaN else if 0 < a then PosInf else NegInf)"
| "num_mul (Fin a) NegInf = (if a = 0 then NaN else if 0 < a then NegInf else PosInf)"
| "num_mul PosInf (Fin b) = (if b = 0 then NaN else if 0 < b then PosInf else NegInf)"
| "num_mul NegInf (Fin b) = (if b = 0 then NaN else if 0 < b then NegInf else PosInf)"
| "num_mul PosInf PosInf = PosInf"
| "num_mul NegInf NegInf = PosInf"
| "num_mul PosInf NegInf = NegInf"
| "num_mul NegInf PosInf = NegInf"

fun num_add :: "jsnum \<Rightarrow> jsnum \<Rightarrow> jsnum" where
  "num_add (Fin a) (Fin b) = round64 (a + b)"
| "num_add NaN _ = NaN"
| "num_add _ NaN = NaN"
| "num_add PosInf NegInf = NaN"
| "num_add NegInf PosInf = NaN"
| "num_add PosInf _ = PosInf"
| "num_add _ PosInf = PosInf"
| "num_add NegInf _ = NegInf"
| "num_add _ NegInf = NegInf"

text \<open>The comparison \<open><=\<close>: false whenever an operand is \<open>NaN\<close>.\<close>

fun num_le :: "jsnum \<Rightarrow> jsnum \<Rightarrow> bool" where
  "num_le (Fin a) (Fin b) = (a \<le> b)"
| "num_le NaN _ = False"
| "num_le _ NaN = False"
| "num_le NegInf _ = True"
| "num_le _ PosInf = True"
| "num_le PosInf _ = False"
| "num_le _ NegInf = False"

definition Number_isNaN :: "jsnum \<Rightarrow> bool" where
  "Number_isNaN n \<longleftrightarrow> n = NaN"

fun Number_isFinite :: "jsnum \<Rightarrow> bool" where
  "Number_isFinite (Fin q) = True"
| "Number_isFinite _ = False"

text \<open>
  The digit characters (\<open>digit_char n\<close> for \<open>n\<close> below 16), the decimal digits of a natural
  number, and \<open>Number.prototype.toString\<close>: the shortest digit string that converts back
  to the same double (\<open>candidate x n k\<close> looks for one of \<open>k\<close> digits, the closer one when
  two fit), laid out with or without exponent as ECMAScript prescribes. \<open>toFixed x f\<close> is \<open>x.toFixed(f)\<close>: the exact value of the double
  rounded to \<open>f\<close> decimals, the larger neighbour on a tie.
\<close>

definition digit_char :: "nat \<Rightarrow> char" where
  "digit_char n = ''0123456789ABCDEF'' ! n"

function decimal :: "nat \<Rightarrow> string" where
  "decimal n = (if n < 10 then [digit_char n] else decimal (n div 10) @ [digit_char (n mod 10)])"
  by pat_completeness auto
termination
  by (relation "measure id") auto

declare decimal.simps [simp del]

definition candidate :: "rat \<Rightarrow> int \<Rightarrow> nat \<Rightarrow> (int \<times> int) option" where
  "candidate x n k =
     (let sc = 10 powi (n - int k);
          lo = \<lfloor>x / sc\<rfloor>;
          hi = lo + 1;
          ok_lo = (round64 (of_int lo * sc) = Fin x);
          ok_hi = (round64 (of_int hi * sc) = Fin x);
          pick_hi = (if ok_lo \<and> ok_hi
                     then (let dl = x - of_int lo * sc; dh = of_int hi * sc - x
                           in dh < dl \<or> (dh = dl \<and> even hi))
                     else ok_hi)
      in if \<not> ok_lo \<and> \<not> ok_hi then None
         else if pick_hi then (if hi = 10 ^ k then Some (10 ^ (k - 1), n + 1) else Some (hi, n))
         else Some (lo, n))"

fun shortest :: "rat \<Rightarrow> int \<Rightarrow> nat \<Rightarrow> nat \<Rightarrow> (int \<times> int) option" where
  "shortest x n k 0 = None"
| "shortest x n k (Suc fuel) =
     (case candidate x n k of Some r \<Rightarrow> Some r | None \<Rightarrow> shortest x n (Suc k) fuel)"

definition format_digits :: "string \<Rightarrow> int \<Rightarrow> string" where
  "format_digits ds n =
     (let k = int (length ds)
      in if k \<le> n \<and> n \<le> 21 then ds @ replicate (nat (n - k)) CHR ''0''
         else if 0 < n \<and> n \<le> 21 then take (nat n) ds @ ''.'' @ drop (nat n) ds
         else if - 6 < n \<and> n \<le> 0 then ''0.'' @ replicate (nat (- n)) CHR ''0'' @ ds
         else (let e = n - 1;
                   ex = (if e < 0 then ''-'' else ''+'') @ decimal (nat \<bar>e\<bar>)
               in if k = 1 then ds @ ''e'' @ ex
                  else take 1 ds @ ''.'' @ drop 1 ds @ ''e'' @ ex))"

definition positive_toString :: "rat \<Rightarrow> string" where
  "positive_toString x =
     (case shortest x (ilog 10 x + 1) 1 17 of
        Some (s, n) \<Rightarrow> format_digits (decimal (nat s)) n
      | None \<Rightarrow> [])"

fun numToString :: "jsnum \<Rightarrow> string" where
  "numToString NaN = ''NaN''"
| "numToString PosInf = ''Infinity''"
| "numToString NegInf = ''-Infinity''"
| "numToString (Fin q) =
     (if q = 0 then ''0''
      else if q < 0 then ''-'' @ positive_toString (- q)
      else positive_toString q)"

definition toFixed :: "jsnum \<Rightarrow> nat \<Rightarrow> string" where
  "toFixed x f =
     (case x of
        Fin q \<Rightarrow>
          (let s = (if q < 0 then ''-'' else '''');
               a = \<bar>q\<bar>
           in if 10 ^ 21 \<le> a then s @ numToString (Fin a)
              else
                let n = nat \<lfloor>a * 10 ^ f + 1 / 2\<rfloor>;
                    m = decimal n;
                    m = (if f = 0 then m
                         else let m = (if length m \<le> f
                                       then replicate (f + 1 - length m) CHR ''0'' @ m else m);
                                  k = length m
                              in take (k - f) m @ ''.'' @ drop (k - f) m)
                in s @ m)
      | _ \<Rightarrow> numToString x)"

section \<open>Dates of the JavaScript runtime\<close>

text \<open>
  A time value is an integer number of milliseconds since 1970-01-01T00:00:00Z, or
  \<open>NaN\<close> (here \<open>None\<close>). \<open>Date_UTC\<close> is \<open>Date.UTC\<close> with six arguments, built from
  ECMAScript's \<open>MakeDay\<close>, \<open>MakeTime\<close>, \<open>MakeDate\<close> and \<open>TimeClip\<close>: a month outside
  \<open>0..11\<close> carries into the year and a day outside the month carries into the
  following months; only a non-finite argument or a time beyond 8.64e15 ms gives \<open>NaN\<close>.
  \<open>toISOString\<close> prints a time value; \<open>civil_from_days\<close> is the year, month and day of a
  day number in the proleptic Gregorian calendar.
\<close>

definition pad :: "nat \<Rightarrow> nat \<Rightarrow> string" where
  "pad w n = replicate (w - length (decimal n)) CHR ''0'' @ decimal n"

definition msPerDay :: int where "msPerDay = 86400000"

definition DayFromYear :: "int \<Rightarrow> int" where
  "DayFromYear y = 365 * (y - 1970) + (y - 1969) div 4 - (y - 1901) div 100 + (y - 1601) div 400"

definition InLeapYear :: "int \<Rightarrow> bool" where
  "InLeapYear y \<longleftrightarrow> y mod 4 = 0 \<and> (y mod 100 \<noteq> 0 \<or> y mod 400 = 0)"

definition month_start :: "bool \<Rightarrow> int \<Rightarrow> int" where
  "month_start leap mn =
     [0, 31, 59, 90, 120, 151, 181, 212, 243, 273, 304, 334] ! nat mn
       + (if leap \<and> 2 \<le> mn then 1 else 0)"

definition MakeDay :: "int \<Rightarrow> int \<Rightarrow> int \<Rightarrow> int" where
  "MakeDay year month date =
     (let ym = year + month div 12; mn = month mod 12
      in DayFromYear ym + month_start (InLeapYear ym) mn + date - 1)"

definition MakeTime :: "int \<Rightarrow> int \<Rightarrow> int \<Rightarrow> int \<Rightarrow> int" where
  "MakeTime hour minute sec ms = hour * 3600000 + minute * 60000 + sec * 1000 + ms"

definition MakeDate :: "int \<Rightarrow> int \<Rightarrow> int" where
  "MakeDate day tm = day * msPerDay + tm"

definition TimeClip :: "int \<Rightarrow> int option" where
  "TimeClip t = (if 8640000000000000 < \<bar>t\<bar> then None else Some t)"

definition MakeFullYear :: "int \<Rightarrow> int" where
  "MakeFullYear y = (if 0 \<le> y \<and> y \<le> 99 then 1900 + y else y)"

definition toIntegerOrInfinity :: "rat \<Rightarrow> int" where
  "toIntegerOrInfinity q = (if 0 \<le> q then \<lfloor>q\<rfloor> else - \<lfloor>- q\<rfloor>)"

fun to_integer :: "jsnum \<Rightarrow> int option" where
  "to_integer (Fin q) = Some (toIntegerOrInfinity q)"
| "to_integer _ = None"

definition Date_UTC :: "jsnum \<Rightarrow> jsnum \<Rightarrow> jsnum \<Rightarrow> jsnum \<Rightarrow> jsnum \<Rightarrow> jsnum \<Rightarrow> int option" where
  "Date_UTC year month date hours minutes seconds =
     (case to_integer year of None \<Rightarrow> None | Some y \<Rightarrow>
      case to_integer month of None \<Rightarrow> None | Some m \<Rightarrow>
      case to_integer date of None \<Rightarrow> None | Some dt \<Rightarrow>
      case to_integer hours of None \<Rightarrow> None | Some h \<Rightarrow>
      case to_integer minutes of None \<Rightarrow> None | Some mi \<Rightarrow>
      case to_integer seconds of None \<Rightarrow> None | Some s \<Rightarrow>
        TimeClip (MakeDate (MakeDay (MakeFullYear y) m dt) (MakeTime h mi s 0)))"

definition civil_from_days :: "int \<Rightarrow> int \<times> int \<times> int" where
  "civil_from_days day =
     (let z = day + 719468;
          era = z div 146097;
          doe = z - era * 146097;
          yoe = (doe - doe div 1460 + doe div 36524 - doe div 146096) div 365;
          doy = doe - (365 * yoe + yoe div 4 - yoe div 100);
          mp = (5 * doy + 2) div 153;
          d = doy - (153 * mp + 2) div 5 + 1;
          m = (if mp < 10 then mp + 3 else mp - 9);
          y = yoe + era * 400 + (if m \<le> 2 then 1 else 0)
      in (y, m, d))"

definition iso_year :: "int \<Rightarrow> string" where
  "iso_year y =
     (if 0 \<le> y \<and> y \<le> 9999 then pad 4 (nat y)
      else (if y < 0 then ''-'' else ''+'') @ pad 6 (nat \<bar>y\<bar>))"

definition toISOString :: "int \<Rightarrow> string" where
  "toISOString tv =
     (let (y, m, d) = civil_from_days (tv div msPerDay);
          t = tv mod msPerDay
      in iso_year y @ ''-'' @ pad 2 (nat m) @ ''-'' @ pad 2 (nat d) @ ''T''
         @ pad 2 (nat (t div 3600000)) @ '':'' @ pad 2 (nat (t div 60000 mod 60)) @ '':''
         @ pad 2 (nat (t div 1000 mod 60)) @ ''.'' @ pad 3 (nat (t mod 1000)) @ ''Z'')"

section \<open>Coordinate and time normalisation\<close>

text \<open>
  \<open>signedCoord\<close> and \<open>toIso\<close> of the source; \<open>None\<close> is JavaScript's \<open>null\<close>.
  \<open>six_digits s\<close> is the test \<open>/^\d{6}$/.test(s)\<close>.
\<close>

definition signedCoord :: "string \<Rightarrow> string \<Rightarrow> jsnum option" where
  "signedCoord v hemi =
     (let n = toNumber v
      in if Number_isNaN n then None
         else Some (if hemi = ''S'' \<or> hemi = ''W'' then num_neg (Math_abs n) else Math_abs n))"

definition six_digits :: "string \<Rightarrow> bool" where
  "six_digits s \<longleftrightarrow> length s = 6 \<and> list_all is_digit s"

definition toIso :: "string \<Rightarrow> string \<Rightarrow> string option" where
  "toIso dmy hms =
     (if \<not> six_digits dmy \<or> \<not> six_digits hms then None
      else
        let d = toNumber (slice dmy 0 2);
            m = num_add (toNumber (slice dmy 2 4)) (Fin (- 1));
            y = num_add (toNumber (slice dmy 4 6)) (Fin 2000);
            H = toNumber (slice hms 0 2);
            M = toNumber (slice hms 2 4);
            S = toNumber (slice hms 4 6)
        in case Date_UTC y m d H M S of
             None \<Rightarrow> None
           | Some tv \<Rightarrow> Some (toISOString tv))"

section \<open>Protocol decoder\<close>

text \<open>
  The two shapes of object that \<open>parseFrame\<close> returns: an event record with four fields,
  and a position record with the same four and seven more. \<open>receivedAt\<close> is the wall
  clock at decode time, \<open>new Date().toISOString()\<close>; the model takes that reading as the
  argument \<open>now\<close>.
\<close>

record event =
  deviceId :: string
  vendor :: string
  cmd :: string
  raw :: string

record position = event +
  time :: "string option"
  valid :: bool
  lat :: "jsnum option"
  lon :: "jsnum option"
  speedKph :: "jsnum option"
  course :: "jsnum option"
  receivedAt :: string

datatype decoded = Event event | Position position

definition finite_or_null :: "jsnum \<Rightarrow> jsnum option" where
  "finite_or_null n = (if Number_isFinite n then Some n else None)"

definition parseFrame :: "string \<Rightarrow> string \<Rightarrow> decoded option" where
  "parseFrame now frame =
     (let body = slice frame 1 (- 1);
          parts = split CHR ''*'' body
      in if length parts < 4 then None
         else
           let vendor = parts ! 0;
               deviceId = parts ! 1;
               payload = join ''*'' (drop 3 parts);
               fields = split CHR '','' payload;
               cmd = hd fields;
               csv = tl fields
           in if length csv < 9
              then Some (Event \<lparr> deviceId = deviceId, vendor = vendor, cmd = cmd, raw = payload \<rparr>)
              else Some (Position
                     \<lparr> deviceId = deviceId, vendor = vendor, cmd = cmd, raw = payload,
                       time = toIso (csv ! 0) (csv ! 1),
                       valid = (csv ! 2 = ''A''),
                       lat = signedCoord (csv ! 3) (csv ! 4),
                       lon = signedCoord (csv ! 5) (csv ! 6),
                       speedKph = finite_or_null (toNumber (csv ! 7)),
                       course = finite_or_null (toNumber (csv ! 8)),
                       receivedAt = now \<rparr>))"

text \<open>Property reads on a decoded record; a field the object lacks reads as \<open>None\<close>.\<close>

fun deviceId_of :: "decoded \<Rightarrow> string" where
  "deviceId_of (Event e) = deviceId e"
| "deviceId_of (Position p) = deviceId p"

fun lat_of :: "decoded \<Rightarrow> jsnum option" where
  "lat_of (Event e) = None"
| "lat_of (Position p) = lat p"

fun lon_of :: "decoded \<Rightarrow> jsnum option" where
  "lon_of (Event e) = None"
| "lon_of (Position p) = lon p"

section \<open>Policy filter and forwarder\<close>

text \<open>
  The configuration read from the environment at start-up. \<open>hasUsableCoords\<close> is the
  source's function: \<open>Number.isFinite\<close> is false on \<open>null\<close> and on a missing field, and
  \<open>&&\<close> evaluates \<open>Math.abs\<close> only on finite numbers.
\<close>

record config =
  FORWARD_URL :: string
  FORWARD_ENABLED :: bool
  FORWARD_ONLY_VALID :: bool
  FORWARD_ALLOW_ZERO_COORDS :: bool

text \<open>The configuration when the environment sets none of the variables.\<close>

definition default_config :: config where
  "default_config =
     \<lparr> FORWARD_URL = ''https://backend.sps-global.com.mx/api/osmand'',
       FORWARD_ENABLED = True, FORWARD_ONLY_VALID = True, FORWARD_ALLOW_ZERO_COORDS = False \<rparr>"

definition hasUsableCoords :: "config \<Rightarrow> decoded \<Rightarrow> bool" where
  "hasUsableCoords cfg pos =
     (let ok = (case (lat_of pos, lon_of pos) of
                  (Some (Fin a), Some (Fin b)) \<Rightarrow> \<bar>a\<bar> \<le> 90 \<and> \<bar>b\<bar> \<le> 180
                | _ \<Rightarrow> False)
      in if \<not> ok then False
         else if \<not> FORWARD_ALLOW_ZERO_COORDS cfg \<and> lat_of pos = Some (Fin 0) \<and> lon_of pos = Some (Fin 0)
         then False
         else True)"

definition kphToKnots :: "jsnum \<Rightarrow> jsnum" where
  "kphToKnots kph = num_mul kph (round64 (539956803 / 1000000000))"

text \<open>
  \<open>params_set\<close> is \<open>URLSearchParams.set\<close>: the first pair of that name takes the value and
  the other pairs of that name go, or a new pair is appended. \<open>serialize\<close> is
  \<open>URLSearchParams.toString\<close>, the \<open>application/x-www-form-urlencoded\<close> serialiser.
\<close>

fun set_first :: "string \<Rightarrow> string \<Rightarrow> (string \<times> string) list \<Rightarrow> (string \<times> string) list" where
  "set_first k v [] = []"
| "set_first k v (p # ps) =
     (if fst p = k then (k, v) # filter (\<lambda>q. fst q \<noteq> k) ps else p # set_first k v ps)"

definition params_set :: "string \<Rightarrow> string \<Rightarrow> (string \<times> string) list \<Rightarrow> (string \<times> string) list" where
  "params_set k v ps = (if k \<in> set (map fst ps) then set_first k v ps else ps @ [(k, v)])"

definition percent :: "nat \<Rightarrow> string" where
  "percent b = [CHR ''%'', digit_char (b div 16), digit_char (b mod 16)]"

definition urlencode_char :: "char \<Rightarrow> string" where
  "urlencode_char c =
     (let n = (of_char c :: nat)
      in if c \<in> set ''abcdefghijklmnopqrstuvwxyzABCDEFGHIJKLMNOPQRSTUVWXYZ0123456789*-._'' then [c]
         else if c = CHR '' '' then ''+''
         else if n < 128 then percent n
         else percent (192 + n div 64) @ percent (128 + n mod 64))"

definition urlencode :: "string \<Rightarrow> string" where
  "urlencode s = concat (map urlencode_char s)"

definition serialize :: "(string \<times> string) list \<Rightarrow> string" where
  "serialize ps = join ''&'' (map (\<lambda>(k, v). urlencode k @ ''='' @ urlencode v) ps)"

text \<open>
  \<open>String_of\<close> is \<open>String(x)\<close> on a number or \<open>null\<close>. \<open>forward_params\<close> is the
  \<open>URLSearchParams\<close> object that \<open>forwardPosition\<close> fills, and \<open>forwardPosition\<close> the request
  it hands to \<open>fetch\<close>. The answer of the remote end is only logged, and the timeout only
  aborts the request; neither is part of the model.
\<close>

definition String_of :: "jsnum option \<Rightarrow> string" where
  "String_of x = (case x of None \<Rightarrow> ''null'' | Some n \<Rightarrow> numToString n)"

record request =
  http_method :: string
  url :: string
  headers :: "(string \<times> string) list"

definition forward_params :: "position \<Rightarrow> (string \<times> string) list" where
  "forward_params pos =
     (let params = [];
          params = params_set ''id'' (deviceId pos) params;
          params = params_set ''lat'' (String_of (lat pos)) params;
          params = params_set ''lon'' (String_of (lon pos)) params;
          params = (case time pos of
                      Some t \<Rightarrow> if t \<noteq> [] then params_set ''timestamp'' t params else params
                    | None \<Rightarrow> params);
          params = params_set ''valid'' (if valid pos then ''true'' else ''false'') params;
          params = (case speedKph pos of
                      Some kph \<Rightarrow> params_set ''speed'' (toFixed (kphToKnots kph) 2) params
                    | None \<Rightarrow> params);
          params = (case course pos of
                      Some c \<Rightarrow> params_set ''bearing'' (numToString c) params
                    | None \<Rightarrow> params)
      in params)"

definition forwardPosition :: "config \<Rightarrow> position \<Rightarrow> request" where
  "forwardPosition cfg pos =
     \<lparr> http_method = ''GET'',
       url = FORWARD_URL cfg @ ''?'' @ serialize (forward_params pos),
       headers = [(''User-Agent'', ''tk905-forwarder/1.0'')] \<rparr>"

section \<open>Connection handler\<close>

text \<open>
  An entry of \<open>lastPositions\<close> is either a position record, or an object made by
  \<open>{ ...(old || {}), lastEvent: pos }\<close>: the fields of the position record that was stored
  before, if there was one, and \<open>lastEvent\<close>. The state of a connection is its \<open>buffer\<close>
  together with what the handler writes to: the shared \<open>lastPositions\<close>, the records whose
  JSON line it appends to \<open>DATA_FILE\<close> and the requests it dispatches to the forwarder,
  both in the order in which the handler issues them.
\<close>

record entry =
  pos_fields :: "position option"
  lastEvent :: "decoded option"

record state =
  buffer :: string
  lastPositions :: "string \<rightharpoonup> entry"
  data_file :: "position list"
  forwarded :: "request list"

text \<open>A fresh connection in a fresh process.\<close>

definition initial_state :: state where
  "initial_state = \<lparr> buffer = [], lastPositions = Map.empty, data_file = [], forwarded = [] \<rparr>"

definition merge_lastEvent :: "entry option \<Rightarrow> decoded \<Rightarrow> entry" where
  "merge_lastEvent old pos =
     (case old of
        None \<Rightarrow> \<lparr> pos_fields = None, lastEvent = Some pos \<rparr>
      | Some e \<Rightarrow> e \<lparr> lastEvent := Some pos \<rparr>)"

text \<open>
  The body of the \<open>for (const frame of frames)\<close> loop. Only a position record has usable
  coordinates (lemma \<open>hasUsableCoords_Position\<close> below), so the \<open>Event\<close> branch under
  \<open>hasUsableCoords\<close> is never reached. Writing to the console is left out.
\<close>

definition handle_frame :: "config \<Rightarrow> string \<Rightarrow> state \<Rightarrow> string \<Rightarrow> state" where
  "handle_frame cfg now st frame =
     (case parseFrame now frame of
        None \<Rightarrow> st
      | Some pos \<Rightarrow>
          if hasUsableCoords cfg pos
          then (case pos of
                  Position p \<Rightarrow>
                    let policyAllows = (\<not> FORWARD_ONLY_VALID cfg \<or> valid p)
                    in st \<lparr> lastPositions := (lastPositions st)(deviceId p \<mapsto> \<lparr> pos_fields = Some p, lastEvent = None \<rparr>),
                            data_file := data_file st @ [p],
                            forwarded := (if FORWARD_ENABLED cfg \<and> policyAllows
                                          then forwarded st @ [forwardPosition cfg p]
                                          else forwarded st) \<rparr>
                | Event e \<Rightarrow> st)
          else st \<lparr> lastPositions := (lastPositions st)
                     (deviceId_of pos \<mapsto> merge_lastEvent (lastPositions st (deviceId_of pos)) pos) \<rparr>)"

text \<open>The \<open>data\<close> handler of a socket: one call per chunk.\<close>

definition on_data :: "config \<Rightarrow> string \<Rightarrow> state \<Rightarrow> string \<Rightarrow> state" where
  "on_data cfg now st chunk =
     (let ex = extractFrames (buffer st @ chunk)
      in foldl (handle_frame cfg now) (st \<lparr> buffer := remainder ex \<rparr>) (frames ex))"

text \<open>
  The buffering part of the handler on its own, over a sequence of chunks: the frames
  handed to the loop, in order, and the buffer kept at the end.
\<close>

fun feed_chunks :: "string \<Rightarrow> string list \<Rightarrow> extracted" where
  "feed_chunks buf [] = \<lparr> frames = [], remainder = buf \<rparr>"
| "feed_chunks buf (chunk # chunks) =
     (let ex = extractFrames (buf @ chunk);
          rest = feed_chunks (remainder ex) chunks
      in \<lparr> frames = frames ex @ frames rest, remainder = remainder rest \<rparr>)"

text \<open>
  A run of the handler over any number of frames, each decoded at its own clock reading.
\<close>

definition handle_frames :: "config \<Rightarrow> state \<Rightarrow> (string \<times> string) list \<Rightarrow> state" where
  "handle_frames cfg st tfs = foldl (\<lambda>s (now, frame). handle_frame cfg now s frame) st tfs"

section \<open>Notions used in the statements\<close>

text \<open>
  The index loop of \<open>extractFrames\<close> is compared with a scanner that works on the list
  itself: \<open>scan\<close> skips to the next \<open>[\<close>, cuts at the first \<open>]\<close> after it and goes on
  behind that \<open>]\<close>; \<open>tail_after\<close> is what follows the last \<open>]\<close>. The lemmas
  \<open>frames_extractFrames\<close> and \<open>remainder_extractFrames\<close> below show that \<open>extractFrames\<close>
  computes exactly these two.
\<close>

function scan :: "string \<Rightarrow> string list" where
  "scan s =
     (case dropWhile (\<lambda>c. c \<noteq> CHR ''['') s of
        [] \<Rightarrow> []
      | b # t \<Rightarrow>
          (if CHR '']'' \<in> set t
           then (b # takeWhile (\<lambda>c. c \<noteq> CHR '']'') t @ '']'')
                # scan (tl (dropWhile (\<lambda>c. c \<noteq> CHR '']'') t))
           else []))"
  by pat_completeness auto
termination
proof (relation "measure length")
  show "wf (measure length)" by simp
next
  fix s :: string and b :: char and t :: string
  assume d: "dropWhile (\<lambda>c. c \<noteq> CHR ''['') s = b # t"
  have "length (tl (dropWhile (\<lambda>c. c \<noteq> CHR '']'') t)) \<le> length t"
    using length_dropWhile_le [of "\<lambda>c. c \<noteq> CHR '']''" t] by simp
  moreover have "length (b # t) \<le> length s"
    using length_dropWhile_le [of "\<lambda>c. c \<noteq> CHR ''[''" s] d by simp
  ultimately show "(tl (dropWhile (\<lambda>c. c \<noteq> CHR '']'') t), s) \<in> measure length"
    by simp
qed

declare scan.simps [simp del]

definition tail_after :: "string \<Rightarrow> string" where
  "tail_after s =
     (if CHR '']'' \<in> set s then rev (takeWhile (\<lambda>c. c \<noteq> CHR '']'') (rev s)) else s)"

text \<open>
  \<open>frames_in_order fs buf\<close>: the strings of \<open>fs\<close> occur in \<open>buf\<close> one after the other,
  without overlap, in the order of the list.
\<close>

fun frames_in_order :: "string list \<Rightarrow> string \<Rightarrow> bool" where
  "frames_in_order [] buf = True"
| "frames_in_order (f # fs) buf =
     (\<exists>pre post. buf = pre @ f @ post \<and> frames_in_order fs post)"

text \<open>
  \<open>two_decimal_places s\<close>: the string is a number printed with two decimals, that is an
  optional minus sign, one or more digits, a point and exactly two digits.
\<close>

definition two_decimal_places :: "string \<Rightarrow> bool" where
  "two_decimal_places s =
     (let t = (if take 1 s = ''-'' then drop 1 s else s);
          k = length t
      in 4 \<le> k \<and> list_all is_digit (take (k - 3) t) \<and> t ! (k - 3) = CHR ''.''
         \<and> list_all is_digit (drop (k - 2) t))"

section \<open>The frame extractor and the scanner\<close>

lemma indexOf_None: "indexOf buf c k = None \<longleftrightarrow> c \<notin> set (drop k buf)"
  by (simp add: indexOf_def Let_def)

lemma indexOf_Some_split:
  assumes "indexOf buf c k = Some i"
  shows "drop k buf = takeWhile (\<lambda>x. x \<noteq> c) (drop k buf) @ c # drop (Suc i) buf"
    and "i = k + length (takeWhile (\<lambda>x. x \<noteq> c) (drop k buf))"
    and "dropWhile (\<lambda>x. x \<noteq> c) (drop k buf) = c # drop (Suc i) buf"
proof -
  let ?rest = "drop k buf"
  let ?tw = "takeWhile (\<lambda>x. x \<noteq> c) ?rest"
  from assms have mem: "c \<in> set ?rest" and i: "i = k + length ?tw"
    by (auto simp: indexOf_def Let_def split: if_splits)
  show "i = k + length ?tw" by (rule i)
  from mem have ne: "dropWhile (\<lambda>x. x \<noteq> c) ?rest \<noteq> []"
    by (auto simp: dropWhile_eq_Nil_conv)
  then have hd: "hd (dropWhile (\<lambda>x. x \<noteq> c) ?rest) = c"
    using hd_dropWhile [of "\<lambda>x. x \<noteq> c" ?rest] by simp
  have "dropWhile (\<lambda>x. x \<noteq> c) ?rest = drop (length ?tw) ?rest"
    by (rule dropWhile_eq_drop)
  then have dw: "dropWhile (\<lambda>x. x \<noteq> c) ?rest = drop i buf"
    by (simp add: i add.commute)
  with ne hd have "drop i buf = c # drop (Suc i) buf"
    by (metis drop_Suc list.collapse tl_drop)
  with dw show *: "dropWhile (\<lambda>x. x \<noteq> c) ?rest = c # drop (Suc i) buf" by simp
  then show "?rest = ?tw @ c # drop (Suc i) buf"
    by (metis takeWhile_dropWhile_id)
qed

lemma slice_nat:
  "a \<le> length s \<Longrightarrow> b \<le> length s \<Longrightarrow> slice s (int a) (int b) = take (b - a) (drop a s)"
  by (simp add: slice_def Let_def min_def nat_diff_distrib')

lemma frames_loop_scan:
  "frames_loop buf (indexOf buf CHR ''['' k) fs = fs @ scan (drop k buf)"
proof (induction "length buf - k" arbitrary: k fs rule: less_induct)
  case less
  show ?case
  proof (cases "indexOf buf CHR ''['' k")
    case None
    then have "CHR ''['' \<notin> set (drop k buf)" by (simp add: indexOf_None)
    then have dn: "dropWhile (\<lambda>c. c \<noteq> CHR ''['') (drop k buf) = []"
      by (auto simp: dropWhile_eq_Nil_conv)
    show ?thesis using None by (simp add: scan.simps [of "drop k buf"] dn)
  next
    case (Some start)
    let ?t = "drop (Suc start) buf"
    from indexOf_Some_split [OF Some]
    have sp: "drop k buf = takeWhile (\<lambda>x. x \<noteq> CHR ''['') (drop k buf) @ CHR ''['' # ?t"
      by simp
    have dw: "dropWhile (\<lambda>c. c \<noteq> CHR ''['') (drop k buf) = CHR ''['' # ?t"
      by (rule indexOf_Some_split(3) [OF Some])
    from indexOf_bounds [OF Some] have st: "k \<le> start" "start < length buf" by auto
    show ?thesis
    proof (cases "indexOf buf CHR '']'' (start + 1)")
      case None
      then have "CHR '']'' \<notin> set ?t" by (simp add: indexOf_None)
      then show ?thesis using Some None dw by (simp add: scan.simps [of "drop k buf"])
    next
      case (Some e)
      note e = Some
      from indexOf_bounds [OF e] have eb: "start < e" "e < length buf" by auto
      from indexOf_Some_split [OF e]
      have tsp: "?t = takeWhile (\<lambda>x. x \<noteq> CHR '']'') ?t @ CHR '']'' # drop (Suc e) buf"
        and elen: "e = Suc start + length (takeWhile (\<lambda>x. x \<noteq> CHR '']'') ?t)"
        by simp_all
      have mem: "CHR '']'' \<in> set ?t" using e by (metis indexOf_None option.distinct(1) Suc_eq_plus1)
      have dwt: "tl (dropWhile (\<lambda>c. c \<noteq> CHR '']'') ?t) = drop (Suc e) buf"
      proof -
        have "dropWhile (\<lambda>c. c \<noteq> CHR '']'') ?t = drop (length (takeWhile (\<lambda>x. x \<noteq> CHR '']'') ?t)) ?t"
          by (rule dropWhile_eq_drop)
        also have "\<dots> = drop e buf" using elen by (simp add: add.commute)
        finally show ?thesis by (simp add: tl_drop drop_Suc)
      qed
      have fr: "slice buf (int start) (int e + 1)
                  = CHR ''['' # takeWhile (\<lambda>c. c \<noteq> CHR '']'') ?t @ '']''"
      proof -
        have "slice buf (int start) (int (Suc e)) = take (Suc e - start) (drop start buf)"
          using st eb by (intro slice_nat) auto
        moreover have "drop start buf = CHR ''['' # ?t"
          using st indexOf_bounds [OF \<open>indexOf buf CHR ''['' k = Some start\<close>]
          by (metis Cons_nth_drop_Suc)
        moreover have "Suc e - start = Suc (Suc (length (takeWhile (\<lambda>x. x \<noteq> CHR '']'') ?t)))"
          using elen by simp
        ultimately have "slice buf (int start) (int (Suc e))
             = CHR ''['' # take (Suc (length (takeWhile (\<lambda>x. x \<noteq> CHR '']'') ?t))) ?t"
          by simp
        also have "take (Suc (length (takeWhile (\<lambda>x. x \<noteq> CHR '']'') ?t))) ?t
             = takeWhile (\<lambda>x. x \<noteq> CHR '']'') ?t @ '']''"
          by (subst tsp) simp
        finally show ?thesis by (simp add: add.commute)
      qed
      have "length buf - Suc e < length buf - k" using st eb by simp
      from less [OF this]
      have ih: "\<And>fs. frames_loop buf (indexOf buf CHR ''['' (Suc e)) fs = fs @ scan (drop (Suc e) buf)" .
      show ?thesis
        using \<open>indexOf buf CHR ''['' k = Some start\<close> e mem
        by (simp add: ih fr scan.simps [of "drop k buf"] dw dwt)
    qed
  qed
qed

lemma frames_extractFrames: "frames (extractFrames buf) = scan buf"
  using frames_loop_scan [of buf 0 "[]"] by (simp add: extractFrames_def Let_def)

lemma remainder_extractFrames: "remainder (extractFrames buf) = tail_after buf"
proof (cases "CHR '']'' \<in> set buf")
  case False
  then show ?thesis by (simp add: extractFrames_def Let_def lastIndexOf_def tail_after_def)
next
  case True
  let ?tw = "takeWhile (\<lambda>x. x \<noteq> CHR '']'') (rev buf)"
  have "CHR '']'' \<in> set (rev buf)" using True by simp
  then have "dropWhile (\<lambda>x. x \<noteq> CHR '']'') (rev buf) \<noteq> []"
    by (auto simp: dropWhile_eq_Nil_conv)
  moreover have "length (rev buf) = length ?tw + length (dropWhile (\<lambda>x. x \<noteq> CHR '']'') (rev buf))"
    by (metis length_append takeWhile_dropWhile_id)
  ultimately have lt: "length ?tw < length buf" by simp
  have "?tw = take (length ?tw) (rev buf)" by (rule takeWhile_eq_take)
  then have "rev ?tw = drop (length buf - length ?tw) buf"
    by (metis rev_take rev_rev_ident length_rev)
  moreover have "slice_from buf (int (length buf - Suc (length ?tw)) + 1)
        = drop (length buf - length ?tw) buf"
  proof -
    have "int (length buf - Suc (length ?tw)) + 1 = int (length buf - length ?tw)"
      using lt by simp
    then show ?thesis
      using slice_nat [of "length buf - length ?tw" buf "length buf"]
      by (simp add: slice_from_def)
  qed
  ultimately show ?thesis
    using True by (simp add: extractFrames_def Let_def lastIndexOf_def tail_after_def)
qed

lemma scan_no_open: "CHR ''['' \<notin> set s \<Longrightarrow> scan s = []"
proof -
  assume "CHR ''['' \<notin> set s"
  then have dn: "dropWhile (\<lambda>c. c \<noteq> CHR ''['') s = []"
    by (auto simp: dropWhile_eq_Nil_conv)
  show ?thesis by (simp add: scan.simps [of s] dn)
qed

lemma dropWhile_skip:
  "c \<notin> set p \<Longrightarrow> dropWhile (\<lambda>x. x \<noteq> c) (p @ s) = dropWhile (\<lambda>x. x \<noteq> c) s"
  by (induction p) auto

lemma scan_skip: "CHR ''['' \<notin> set p \<Longrightarrow> scan (p @ s) = scan s"
  by (simp add: scan.simps [of "p @ s"] scan.simps [of s] dropWhile_skip)

lemma takeWhile_stop:
  "c \<notin> set u \<Longrightarrow> takeWhile (\<lambda>x. x \<noteq> c) (u @ c # v) = u"
  by (induction u) auto

lemma dropWhile_stop:
  "c \<notin> set u \<Longrightarrow> dropWhile (\<lambda>x. x \<noteq> c) (u @ c # v) = c # v"
  by (induction u) auto

lemma scan_frame:
  "CHR '']'' \<notin> set u \<Longrightarrow>
     scan (CHR ''['' # u @ CHR '']'' # v) = (CHR ''['' # u @ '']'') # scan v"
  by (simp add: scan.simps [of "CHR ''['' # u @ CHR '']'' # v"] takeWhile_stop dropWhile_stop)

lemma scan_unclosed: "CHR '']'' \<notin> set t \<Longrightarrow> scan (CHR ''['' # t) = []"
  by (simp add: scan.simps [of "CHR ''['' # t"])

lemma buffer_cases:
  fixes s :: string
  obtains (no_open) "CHR ''['' \<notin> set s"
  | (unclosed) p t where "s = p @ CHR ''['' # t" "CHR ''['' \<notin> set p" "CHR '']'' \<notin> set t"
  | (frame) p u v where "s = p @ CHR ''['' # u @ CHR '']'' # v" "CHR ''['' \<notin> set p"
      "CHR '']'' \<notin> set u"
proof (cases "CHR ''['' \<in> set s")
  case False
  then show ?thesis by (rule no_open)
next
  case True
  then obtain p t where s: "s = p @ CHR ''['' # t" and p: "CHR ''['' \<notin> set p"
    by (meson split_list_first)
  show ?thesis
  proof (cases "CHR '']'' \<in> set t")
    case False
    with s p show ?thesis by (rule unclosed)
  next
    case True
    then obtain u v where "t = u @ CHR '']'' # v" "CHR '']'' \<notin> set u"
      by (meson split_list_first)
    with s p show ?thesis by (intro frame [of p u v]) auto
  qed
qed

lemma tail_after_none: "CHR '']'' \<notin> set s \<Longrightarrow> tail_after s = s"
  by (simp add: tail_after_def)

lemma tail_after_close: "tail_after (x @ CHR '']'' # v) = tail_after v"
proof (cases "CHR '']'' \<in> set v")
  case True
  then have "CHR '']'' \<in> set (rev v)" by simp
  then have "takeWhile (\<lambda>c. c \<noteq> CHR '']'') (rev v @ CHR '']'' # rev x)
               = takeWhile (\<lambda>c. c \<noteq> CHR '']'') (rev v)"
    by (simp add: takeWhile_append1 del: set_rev)
  with True show ?thesis by (simp add: tail_after_def)
next
  case False
  then have "takeWhile (\<lambda>c. c \<noteq> CHR '']'') (rev v @ CHR '']'' # rev x) = rev v"
    by (intro takeWhile_stop) simp
  with False show ?thesis by (simp add: tail_after_def)
qed

lemma tail_after_clean: "CHR '']'' \<notin> set (tail_after s)"
proof (cases "CHR '']'' \<in> set s")
  case True
  then obtain x v where "s = x @ CHR '']'' # v" "CHR '']'' \<notin> set v"
    by (meson split_list_last)
  then show ?thesis by (simp add: tail_after_close tail_after_none)
next
  case False
  then show ?thesis by (simp add: tail_after_none)
qed

lemma tail_after_suffix: "suffix (tail_after s) s"
proof (cases "CHR '']'' \<in> set s")
  case True
  then obtain x v where s: "s = x @ CHR '']'' # v" and "CHR '']'' \<notin> set v"
    by (meson split_list_last)
  then have "tail_after s = v" by (simp add: tail_after_close tail_after_none)
  with s show ?thesis by (auto simp: suffix_def)
next
  case False
  then show ?thesis by (simp add: tail_after_none)
qed

lemma tail_after_whole: "tail_after s = s \<longleftrightarrow> CHR '']'' \<notin> set s"
  using tail_after_clean [of s] tail_after_none [of s] by auto

lemma tail_after_append_clean:
  "CHR '']'' \<notin> set y \<Longrightarrow> tail_after (x @ y) = tail_after x @ y"
proof (cases "CHR '']'' \<in> set x")
  case True
  assume y: "CHR '']'' \<notin> set y"
  from True obtain x1 v where x: "x = x1 @ CHR '']'' # v" and v: "CHR '']'' \<notin> set v"
    by (meson split_list_last)
  have "tail_after (x @ y) = tail_after (x1 @ CHR '']'' # (v @ y))" by (simp add: x)
  also have "\<dots> = v @ y" using v y by (simp only: tail_after_close) (simp add: tail_after_none)
  finally show ?thesis using v by (simp add: x tail_after_close tail_after_none)
next
  case False
  assume "CHR '']'' \<notin> set y"
  with False show ?thesis by (simp add: tail_after_none)
qed

lemma tail_after_no_open: "CHR ''['' \<notin> set s \<Longrightarrow> CHR ''['' \<notin> set (tail_after s)"
  using set_mono_suffix [OF tail_after_suffix [of s]] by auto

lemma scan_append:
  "scan (a @ b) = scan a @ scan (tail_after a @ b)"
proof (induction "length a" arbitrary: a rule: less_induct)
  case less
  show ?case
  proof (cases a rule: buffer_cases)
    case no_open
    then show ?thesis
      by (simp add: scan_no_open scan_skip tail_after_no_open)
  next
    case (unclosed p t)
    have "tail_after a = tail_after p @ CHR ''['' # t"
      unfolding unclosed(1) using unclosed(3) by (intro tail_after_append_clean) simp
    moreover have "scan a = []"
      unfolding unclosed(1) using unclosed by (simp add: scan_skip scan_unclosed)
    moreover have "scan (a @ b) = scan (CHR ''['' # t @ b)"
      unfolding unclosed(1) using unclosed(2) scan_skip [of p "CHR ''['' # t @ b"] by simp
    moreover have "scan (tail_after p @ CHR ''['' # t @ b) = scan (CHR ''['' # t @ b)"
      using unclosed(2) by (intro scan_skip tail_after_no_open)
    ultimately show ?thesis by simp
  next
    case (frame p u v)
    have "length v < length a" by (simp add: frame(1))
    from less [OF this] have ih: "scan (v @ b) = scan v @ scan (tail_after v @ b)" .
    have "tail_after a = tail_after v"
      using tail_after_close [of "p @ CHR ''['' # u" v] by (simp add: frame(1))
    moreover have "scan a = (CHR ''['' # u @ '']'') # scan v"
      unfolding frame(1) using frame by (simp add: scan_skip scan_frame)
    moreover have "scan (a @ b) = (CHR ''['' # u @ '']'') # scan (v @ b)"
      unfolding frame(1) using frame(2,3)
        scan_skip [of p "CHR ''['' # u @ CHR '']'' # v @ b"] scan_frame [of u "v @ b"]
      by simp
    ultimately show ?thesis by (simp add: ih)
  qed
qed

lemma tail_after_append: "tail_after (a @ b) = tail_after (tail_after a @ b)"
proof (cases "CHR '']'' \<in> set b")
  case True
  then obtain x y where b: "b = x @ CHR '']'' # y"
    by (meson split_list)
  have "tail_after (a @ b) = tail_after y"
    using tail_after_close [of "a @ x" y] by (simp add: b)
  moreover have "tail_after (tail_after a @ b) = tail_after y"
    using tail_after_close [of "tail_after a @ x" y] by (simp add: b)
  ultimately show ?thesis by simp
next
  case False
  then show ?thesis
    by (simp add: tail_after_append_clean tail_after_none tail_after_clean)
qed

lemma scan_shape:
  "f \<in> set (scan s) \<Longrightarrow> \<exists>u. f = CHR ''['' # u @ '']'' \<and> CHR '']'' \<notin> set u"
proof (induction "length s" arbitrary: s rule: less_induct)
  case less
  show ?case
  proof (cases s rule: buffer_cases)
    case no_open
    with less.prems show ?thesis by (simp add: scan_no_open)
  next
    case (unclosed p t)
    with less.prems show ?thesis by (simp add: scan_skip scan_unclosed)
  next
    case (frame p u v)
    then have sc: "scan s = (CHR ''['' # u @ '']'') # scan v"
      by (simp add: scan_skip scan_frame)
    have "length v < length s" by (simp add: frame(1))
    from less.hyps [OF this] less.prems frame(3) show ?thesis
      by (auto simp: sc)
  qed
qed

lemma scan_in_order: "frames_in_order (scan s) s"
proof (induction "length s" arbitrary: s rule: less_induct)
  case less
  show ?case
  proof (cases s rule: buffer_cases)
    case no_open
    then show ?thesis by (simp add: scan_no_open)
  next
    case (unclosed p t)
    then show ?thesis by (simp add: scan_skip scan_unclosed)
  next
    case (frame p u v)
    then have sc: "scan s = (CHR ''['' # u @ '']'') # scan v"
      by (simp add: scan_skip scan_frame)
    have "length v < length s" by (simp add: frame(1))
    from less [OF this] have "frames_in_order (scan v) v" .
    moreover have "s = p @ (CHR ''['' # u @ '']'') @ v" by (simp add: frame(1))
    ultimately show ?thesis unfolding sc frames_in_order.simps by blast
  qed
qed

text \<open>
  Claim C10. For every input buffer, each frame emitted by \<open>extractFrames\<close> begins with
  \<open>[\<close>, ends with \<open>]\<close> and contains no \<open>]\<close> before its final character; the frames
  appear in the buffer in emission order; and the returned remainder is a suffix of the
  buffer that contains no \<open>]\<close> at all, and is the whole buffer exactly when the buffer
  contains no \<open>]\<close>.
\<close>

theorem extractFrames_shape:
  "(\<forall>f \<in> set (frames (extractFrames buf)).
      2 \<le> length f \<and> hd f = CHR ''['' \<and> last f = CHR '']'' \<and> CHR '']'' \<notin> set (butlast f))
   \<and> frames_in_order (frames (extractFrames buf)) buf
   \<and> suffix (remainder (extractFrames buf)) buf
   \<and> CHR '']'' \<notin> set (remainder (extractFrames buf))
   \<and> (remainder (extractFrames buf) = buf \<longleftrightarrow> CHR '']'' \<notin> set buf)"
proof -
  have "2 \<le> length f \<and> hd f = CHR ''['' \<and> last f = CHR '']'' \<and> CHR '']'' \<notin> set (butlast f)"
    if "f \<in> set (scan buf)" for f
  proof -
    from scan_shape [OF that] obtain u where "f = CHR ''['' # u @ '']''" "CHR '']'' \<notin> set u"
      by blast
    then show ?thesis by (simp add: butlast_append)
  qed
  then show ?thesis
    by (simp add: frames_extractFrames remainder_extractFrames scan_in_order
        tail_after_suffix tail_after_clean tail_after_whole)
qed

theorem extractFrames_shape_witness:
  "''[cd]'' \<in> set (frames (extractFrames ''ab[cd]e]f[g][h''))
   \<and> 2 \<le> length ''[cd]'' \<and> hd ''[cd]'' = CHR ''['' \<and> last ''[cd]'' = CHR '']''
   \<and> CHR '']'' \<notin> set (butlast ''[cd]'')
   \<and> frames (extractFrames ''ab[cd]e]f[g][h'') = [''[cd]'', ''[g]'']
   \<and> frames_in_order [''[cd]'', ''[g]''] ''ab[cd]e]f[g][h''
   \<and> remainder (extractFrames ''ab[cd]e]f[g][h'') = ''[h''
   \<and> suffix ''[h'' ''ab[cd]e]f[g][h''
   \<and> CHR '']'' \<notin> set ''[h''"
proof -
  have e: "extractFrames ''ab[cd]e]f[g][h'' = \<lparr> frames = [''[cd]'', ''[g]''], remainder = ''[h'' \<rparr>"
    by code_simp
  show ?thesis using extractFrames_shape [of "''ab[cd]e]f[g][h''"] unfolding e by simp
qed

section \<open>Chunk boundaries do not matter\<close>

lemma feed_chunks_scan:
  "CHR '']'' \<notin> set buf \<Longrightarrow>
     feed_chunks buf chunks
       = \<lparr> frames = scan (buf @ concat chunks), remainder = tail_after (buf @ concat chunks) \<rparr>"
proof (induction chunks arbitrary: buf)
  case Nil
  then have "scan buf = []"
    by (cases buf rule: buffer_cases) (auto simp: scan_no_open scan_skip scan_unclosed)
  with Nil show ?case by (simp add: tail_after_none)
next
  case (Cons chunk chunks)
  have "CHR '']'' \<notin> set (tail_after (buf @ chunk))" by (rule tail_after_clean)
  from Cons.IH [OF this] show ?case
    using scan_append [of "buf @ chunk" "concat chunks"]
      tail_after_append [of "buf @ chunk" "concat chunks"]
    by (simp add: Let_def frames_extractFrames remainder_extractFrames)
qed

text \<open>
  Claim C1. For every string and every way of splitting it into a sequence of chunks,
  feeding the chunks one at a time through the handler's buffer-append-then-\<open>extractFrames\<close>
  step yields exactly the same ordered sequence of frames, and hence the same decoded
  records, as delivering the whole string as a single chunk. (The decoded records are
  compared for one reading \<open>now\<close> of the clock that stamps \<open>receivedAt\<close>.)
\<close>

theorem chunking_independent:
  "feed_chunks [] chunks = feed_chunks [] [concat chunks]
   \<and> frames (feed_chunks [] chunks) = frames (extractFrames (concat chunks))
   \<and> List.map_filter (parseFrame now) (frames (feed_chunks [] chunks))
       = List.map_filter (parseFrame now) (frames (extractFrames (concat chunks)))"
proof -
  have "feed_chunks [] chunks
          = \<lparr> frames = scan (concat chunks), remainder = tail_after (concat chunks) \<rparr>"
    using feed_chunks_scan [of "[]" chunks] by simp
  then show ?thesis
    by (simp add: Let_def frames_extractFrames remainder_extractFrames)
qed

text \<open>
  The same at the level of the whole handler: starting from an empty buffer, the state
  after the chunks (store, file, forwarded requests and buffer) is the state after the
  one chunk.
\<close>

lemma handle_frame_buffer:
  "handle_frame cfg now (st \<lparr> buffer := b \<rparr>) frame = (handle_frame cfg now st frame) \<lparr> buffer := b \<rparr>"
  by (simp add: handle_frame_def Let_def split: option.splits decoded.splits)

lemma foldl_handle_frame_buffer:
  "foldl (handle_frame cfg now) (st \<lparr> buffer := b \<rparr>) fs
     = (foldl (handle_frame cfg now) st fs) \<lparr> buffer := b \<rparr>"
  by (induction fs arbitrary: st) (simp_all add: handle_frame_buffer)

lemma on_data_chunks:
  "foldl (on_data cfg now) st chunks
     = foldl (handle_frame cfg now) (st \<lparr> buffer := remainder (feed_chunks (buffer st) chunks) \<rparr>)
         (frames (feed_chunks (buffer st) chunks))"
proof (induction chunks arbitrary: st)
  case Nil
  show ?case by simp
next
  case (Cons chunk chunks)
  let ?ex = "extractFrames (buffer st @ chunk)"
  have od: "on_data cfg now st chunk
              = (foldl (handle_frame cfg now) st (frames ?ex)) \<lparr> buffer := remainder ?ex \<rparr>"
    by (simp add: on_data_def Let_def foldl_handle_frame_buffer)
  have "foldl (on_data cfg now) st (chunk # chunks)
          = foldl (on_data cfg now) (on_data cfg now st chunk) chunks"
    by simp
  also have "\<dots> = foldl (handle_frame cfg now)
       ((on_data cfg now st chunk)
          \<lparr> buffer := remainder (feed_chunks (buffer (on_data cfg now st chunk)) chunks) \<rparr>)
       (frames (feed_chunks (buffer (on_data cfg now st chunk)) chunks))"
    by (rule Cons.IH)
  also have "\<dots> = foldl (handle_frame cfg now)
       (st \<lparr> buffer := remainder (feed_chunks (buffer st) (chunk # chunks)) \<rparr>)
       (frames (feed_chunks (buffer st) (chunk # chunks)))"
    by (simp add: od Let_def foldl_handle_frame_buffer)
  finally show ?case .
qed

lemma on_data_chunking:
  "buffer st = [] \<Longrightarrow> foldl (on_data cfg now) st chunks = on_data cfg now st (concat chunks)"
proof -
  assume "buffer st = []"
  then have "feed_chunks (buffer st) chunks
               = \<lparr> frames = frames (extractFrames (concat chunks)),
                   remainder = remainder (extractFrames (concat chunks)) \<rparr>"
    using feed_chunks_scan [of "[]" chunks]
    by (simp add: frames_extractFrames remainder_extractFrames)
  then show ?thesis
    using \<open>buffer st = []\<close> by (simp add: on_data_chunks on_data_def Let_def)
qed

section \<open>Facts about the number model\<close>

text \<open>
  \<open>ilog b x\<close> is the integer part of the logarithm to base \<open>b\<close>, and \<open>round64\<close> leaves every
  double as it is: a value \<open>m * 2 ^ k\<close> with a significand below \<open>2 ^ 53\<close> and an exponent in
  the range of binary64. In particular the integers below \<open>2 ^ 53\<close> are exact.
\<close>

lemma digit_count_bounds:
  "1 < b \<Longrightarrow> 0 < n \<Longrightarrow>
     1 \<le> digit_count b n \<and> b ^ nat (digit_count b n - 1) \<le> n \<and> n < b ^ nat (digit_count b n)"
proof (induction b n rule: digit_count.induct)
  case (1 b n)
  have dm: "n = b * (n div b) + n mod b" by simp
  have m0: "0 \<le> n mod b" and mb: "n mod b < b" using 1(2) by simp_all
  have nn: "0 \<le> n div b" using 1(2,3) by (simp add: pos_imp_zdiv_nonneg_iff)
  have dc: "digit_count b n = 1 + digit_count b (n div b)"
    using 1(2,3) by (subst digit_count.simps) simp
  show ?case
  proof (cases "n div b = 0")
    case True
    then have "n = n mod b" using dm by simp
    then have "n < b" using mb by simp
    moreover have "digit_count b (n div b) = 0"
      using True by (subst digit_count.simps) simp
    ultimately show ?thesis using 1(3) by (simp add: dc)
  next
    case False
    then have pos: "0 < n div b" using nn by simp
    have c: "1 < b \<and> 0 < n" using 1(2,3) by simp
    from 1(1) [OF c 1(2) pos]
    have ih: "1 \<le> digit_count b (n div b)"
      "b ^ nat (digit_count b (n div b) - 1) \<le> n div b"
      "n div b < b ^ nat (digit_count b (n div b))"
      by auto
    define d where "d = digit_count b (n div b)"
    have d1: "1 \<le> d" using ih(1) by (simp add: d_def)
    have pw: "b ^ nat d = b * b ^ nat (d - 1)"
    proof -
      have "nat d = Suc (nat (d - 1))" using d1 by simp
      then show ?thesis by simp
    qed
    have "b * b ^ nat (d - 1) \<le> b * (n div b)"
      using ih(2) 1(2) by (simp add: d_def)
    then have lo: "b ^ nat d \<le> n" using pw dm m0 by linarith
    have "n div b + 1 \<le> b ^ nat d" using ih(3) by (simp add: d_def)
    then have "b * (n div b + 1) \<le> b * b ^ nat d" using 1(2) by simp
    moreover have "n < b * (n div b + 1)"
    proof -
      have "b * (n div b + 1) = b * (n div b) + b" by (simp add: algebra_simps)
      with dm mb show ?thesis by linarith
    qed
    moreover have "b ^ nat (1 + d) = b * b ^ nat d"
    proof -
      have "nat (1 + d) = Suc (nat d)" using d1 by simp
      then show ?thesis by simp
    qed
    ultimately have hi: "n < b ^ nat (1 + d)" by linarith
    show ?thesis using d1 lo hi by (simp add: dc d_def [symmetric])
  qed
qed


lemma ilog_bounds:
  assumes b: "1 < b" and x: "0 < x"
  shows "of_int b powi (ilog b x) \<le> x \<and> x < of_int b powi (ilog b x + 1)"
proof -
  obtain p q where pq: "quotient_of x = (p, q)" by (cases "quotient_of x")
  have q: "0 < q" using quotient_of_denom_pos [OF pq] .
  have xe: "x = of_int p / of_int q" using quotient_of_div [OF pq] .
  have p: "0 < p"
  proof -
    have "0 < (of_int p :: rat) / of_int q" using x xe by simp
    then show ?thesis using q by (simp add: zero_less_divide_iff)
  qed
  define B :: rat where "B = of_int b"
  have B: "1 < B" "0 < B" "B \<noteq> 0" using b by (simp_all add: B_def)
  define dp where "dp = digit_count b p"
  define dq where "dq = digit_count b q"
  from digit_count_bounds [OF b p]
  have dp: "1 \<le> dp" "b ^ nat (dp - 1) \<le> p" "p < b ^ nat dp" by (simp_all add: dp_def)
  from digit_count_bounds [OF b q]
  have dq: "1 \<le> dq" "b ^ nat (dq - 1) \<le> q" "q < b ^ nat dq" by (simp_all add: dq_def)
  have P: "B powi (dp - 1) \<le> of_int p" "of_int p < B powi dp"
  proof -
    have "(of_int (b ^ nat (dp - 1)) :: rat) \<le> of_int p" using dp(2) by (simp only: of_int_le_iff)
    then show "B powi (dp - 1) \<le> of_int p"
      using dp(1) by (simp add: B_def power_int_nonneg_exp)
    have "(of_int p :: rat) < of_int (b ^ nat dp)" using dp(3) by (simp only: of_int_less_iff)
    then show "of_int p < B powi dp"
      using dp(1) by (simp add: B_def power_int_nonneg_exp)
  qed
  have Q: "B powi (dq - 1) \<le> of_int q" "of_int q < B powi dq"
  proof -
    have "(of_int (b ^ nat (dq - 1)) :: rat) \<le> of_int q" using dq(2) by (simp only: of_int_le_iff)
    then show "B powi (dq - 1) \<le> of_int q"
      using dq(1) by (simp add: B_def power_int_nonneg_exp)
    have "(of_int q :: rat) < of_int (b ^ nat dq)" using dq(3) by (simp only: of_int_less_iff)
    then show "of_int q < B powi dq"
      using dq(1) by (simp add: B_def power_int_nonneg_exp)
  qed
  have pos: "\<And>k. 0 < B powi k" using B(2) by simp
  have up: "x < B powi (dp - dq + 1)"
  proof -
    have "of_int p / of_int q < B powi dp / B powi (dq - 1)"
      using P(2) Q(1) p pos [of "dq - 1"] by (intro frac_less) simp_all
    also have "\<dots> = B powi (dp - (dq - 1))" using B(3) by (simp add: power_int_diff)
    finally show ?thesis by (simp add: xe algebra_simps)
  qed
  have lo: "B powi (dp - dq - 1) < x"
  proof -
    have "B powi (dp - 1) / B powi dq < of_int p / of_int q"
      using P(1) Q(2) q pos [of "dp - 1"] by (intro frac_less2) simp_all
    moreover have "B powi (dp - 1) / B powi dq = B powi (dp - 1 - dq)"
      using B(3) by (simp add: power_int_diff)
    ultimately show ?thesis by (simp add: xe algebra_simps)
  qed
  have il: "ilog b x = (if B powi (dp - dq) \<le> x then dp - dq else dp - dq - 1)"
    by (simp add: ilog_def pq dp_def dq_def B_def)
  show ?thesis
  proof (cases "B powi (dp - dq) \<le> x")
    case True
    then show ?thesis using up by (simp add: il B_def [symmetric])
  next
    case False
    then show ?thesis using lo by (simp add: il B_def [symmetric])
  qed
qed


lemma round_half_even_of_int: "round_half_even (of_int n) = n"
  by (simp add: round_half_even_def)

lemma ilog_less: 
  assumes "1 < b" "0 < x" "x < of_int b powi k"
  shows "ilog b x < k"
proof (rule ccontr)
  assume "\<not> ilog b x < k"
  then have "k \<le> ilog b x" by simp
  then have "(of_int b :: rat) powi k \<le> of_int b powi (ilog b x)"
    using assms(1) by (intro power_int_increasing) simp_all
  with ilog_bounds [OF assms(1,2)] assms(3) show False by simp
qed

lemma ilog_ge:
  assumes "1 < b" "0 < x" "of_int b powi k \<le> x"
  shows "k \<le> ilog b x"
proof (rule ccontr)
  assume "\<not> k \<le> ilog b x"
  then have "ilog b x + 1 \<le> k" by simp
  then have "(of_int b :: rat) powi (ilog b x + 1) \<le> of_int b powi k"
    using assms(1) by (intro power_int_increasing) simp_all
  with ilog_bounds [OF assms(1,2)] assms(3) show False by simp
qed

lemma round64_exact:
  assumes x: "x = of_int m * 2 powi k" and m: "\<bar>m\<bar> < 2 ^ 53"
    and k: "- 1074 \<le> k" "k \<le> 971"
  shows "round64 x = Fin x"
proof (cases "m = 0")
  case True
  then show ?thesis by (simp add: x round64_def)
next
  case False
  define a where "a = \<bar>x\<bar>"
  define M where "M = \<bar>m\<bar>"
  have M: "1 \<le> M" "M < 2 ^ 53" using False m by (simp_all add: M_def)
  have a: "a = of_int M * 2 powi k" by (simp add: a_def x M_def abs_mult)
  have x0: "x \<noteq> 0" using False by (simp add: x)
  have a0: "0 < a" using x0 by (simp add: a_def)
  define e where "e = ilog 2 a"
  have "(2::rat) powi k \<le> a"
  proof -
    have "(1::rat) \<le> of_int M" using M(1) by simp
    then have "1 * (2::rat) powi k \<le> of_int M * 2 powi k"
      by (intro mult_right_mono) simp_all
    then show ?thesis by (simp add: a)
  qed
  then have ke: "k \<le> e" using ilog_ge [of 2 a k] a0 by (simp add: e_def)
  have "a < 2 powi (53 + k)"
  proof -
    have "(of_int M :: rat) < of_int (2 ^ 53)" using M(2) by (simp only: of_int_less_iff)
    then have "of_int M * (2::rat) powi k < of_int (2 ^ 53) * 2 powi k"
      by (intro mult_strict_right_mono) simp_all
    also have "\<dots> = 2 powi (53 + k)" by (simp add: power_int_add)
    finally show ?thesis by (simp add: a)
  qed
  then have ek: "e < 53 + k" using ilog_less [of 2 a "53 + k"] a0 by (simp add: e_def)
  define E where "E = max e (- 1022)"
  have Ek: "0 \<le> k + 52 - E" using ek k(1) by (simp add: E_def)
  define N where "N = M * 2 ^ nat (k + 52 - E)"
  have scaled: "a * 2 powi (52 - E) = of_int N"
  proof -
    have "a * 2 powi (52 - E) = of_int M * (2 powi k * 2 powi (52 - E))" by (simp add: a)
    also have "2 powi k * (2::rat) powi (52 - E) = 2 powi (k + 52 - E)"
      by (simp add: power_int_add [symmetric] algebra_simps)
    also have "\<dots> = 2 ^ nat (k + 52 - E)" using Ek by (simp add: power_int_nonneg_exp)
    finally show ?thesis by (simp add: N_def)
  qed
  have unscale: "of_int N * (2::rat) powi (E - 52) = a"
  proof -
    have "of_int N * (2::rat) powi (E - 52) = a * (2 powi (52 - E) * 2 powi (E - 52))"
      by (simp add: scaled [symmetric])
    also have "(2::rat) powi (52 - E) * 2 powi (E - 52) = 2 powi 0"
      by (simp add: power_int_add [symmetric])
    finally show ?thesis by simp
  qed
  have no_overflow: "\<not> (1023 < E \<or> (E = 1023 \<and> N = 2 ^ 53))"
  proof -
    have E1: "E \<le> 1023" using ek k(2) by (simp add: E_def)
    have "N \<noteq> 2 ^ 53" if "E = 1023"
    proof -
      from that have Ee: "E = e" by (simp add: E_def max_def split: if_splits)
      have "a < 2 powi (e + 1)" using ilog_bounds [of 2 a] a0 by (simp add: e_def)
      then have "a * 2 powi (52 - E) < 2 powi (e + 1) * 2 powi (52 - E)"
        by (intro mult_strict_right_mono) simp_all
      also have "\<dots> = 2 powi 53" by (simp add: power_int_add [symmetric] Ee)
      finally have "(of_int N :: rat) < of_int (2 ^ 53)" by (simp add: scaled)
      then have "N < 2 ^ 53" by (simp only: of_int_less_iff)
      then show ?thesis by simp
    qed
    with E1 show ?thesis by auto
  qed
  have "round64 x = Fin (sgn x * of_int N * 2 powi (E - 52))"
    using x0 no_overflow
    by (simp add: round64_def Let_def a_def [symmetric] e_def [symmetric] E_def [symmetric]
        scaled round_half_even_of_int)
  also have "sgn x * of_int N * 2 powi (E - 52) = sgn x * a"
    using unscale by (simp add: mult.assoc)
  also have "\<dots> = x" by (simp add: a_def sgn_mult_abs)
  finally show ?thesis .
qed

lemma round64_of_int: "\<bar>n\<bar> < 2 ^ 53 \<Longrightarrow> round64 (of_int n) = Fin (of_int n)"
  using round64_exact [of "of_int n" n 0] by simp

lemma round64_numeral [simp]:
  "numeral w < (9007199254740992::int) \<Longrightarrow> round64 (numeral w) = Fin (numeral w)"
  using round64_of_int [of "numeral w"] by simp

lemma round64_neg_numeral [simp]:
  "numeral w < (9007199254740992::int) \<Longrightarrow> round64 (- numeral w) = Fin (- numeral w)"
  using round64_of_int [of "- numeral w"] by simp

lemma round64_0 [simp]: "round64 0 = Fin 0"
  by (simp add: round64_def)

lemma round64_1 [simp]: "round64 1 = Fin 1"
  using round64_of_int [of 1] by simp

section \<open>Evaluating the number conversions\<close>

lemmas toNumber_defs = toNumber_def trim_def is_white_space_def prefixed_integer_def
  split_sign_def unsigned_decimal_def is_digit_def digits_number_def digit_value_def
  exponent_part_def Let_def

lemma round64_21_2: "round64 (21 / 2) = Fin (21 / 2)"
  by code_simp

lemma round64_m21_2: "round64 (- (21 / 2)) = Fin (- (21 / 2))"
  by code_simp

lemma toNumber_10_5: "toNumber ''10.5'' = Fin (21 / 2)"
  by (simp add: toNumber_defs round64_21_2)

lemma toNumber_m10_5: "toNumber ''-10.5'' = Fin (- (21 / 2))"
  by (simp add: toNumber_defs round64_m21_2)

lemma toNumber_abc: "toNumber ''abc'' = NaN"
  by (simp add: toNumber_defs)

lemma toNumber_empty: "toNumber '''' = Fin 0"
  by (simp add: toNumber_defs)

lemma toNumber_blank: "toNumber '' '' = Fin 0"
  by (simp add: toNumber_defs)

lemma toNumber_10: "toNumber ''10'' = Fin 10"
  by (simp add: toNumber_defs)

section \<open>The sign of a coordinate\<close>

lemma num_le_abs: "n \<noteq> NaN \<Longrightarrow> num_le (Fin 0) (Math_abs n)"
  by (cases n) simp_all

lemma num_le_neg_abs: "n \<noteq> NaN \<Longrightarrow> num_le (num_neg (Math_abs n)) (Fin 0)"
  by (cases n) simp_all

lemma Math_abs_neg: "Math_abs (num_neg n) = Math_abs n"
  by (cases n) simp_all

lemma Math_abs_idem: "Math_abs (Math_abs n) = Math_abs n"
  by (cases n) simp_all

text \<open>
  What \<open>signedCoord\<close> does for every string \<open>v\<close> and hemisphere tag \<open>h\<close>: the result is
  \<open>null\<close> exactly when \<open>Number(v)\<close> is \<open>NaN\<close>, and otherwise it is \<open>-abs\<close> of the parsed value
  when \<open>h\<close> is \<open>S\<close> or \<open>W\<close> and \<open>abs\<close> of it for any other \<open>h\<close>: at most zero in the first
  case and at least zero in the second, with the magnitude of the parsed value, whatever
  sign the device sent. The three examples of the specification come out as it says, and
  an already negative \<open>-10.5\<close> with \<open>N\<close> gives \<open>10.5\<close>.
\<close>

lemma signedCoord_hemisphere:
  "(toNumber v = NaN \<longrightarrow> signedCoord v h = None)
   \<and> (toNumber v \<noteq> NaN \<longrightarrow>
        (\<exists>r. signedCoord v h = Some r
           \<and> r = (if h = ''S'' \<or> h = ''W'' then num_neg (Math_abs (toNumber v))
                  else Math_abs (toNumber v))
           \<and> Math_abs r = Math_abs (toNumber v)
           \<and> (if h = ''S'' \<or> h = ''W'' then num_le r (Fin 0) else num_le (Fin 0) r)))
   \<and> signedCoord ''10.5'' ''S'' = Some (Fin (- (21 / 2)))
   \<and> signedCoord ''10.5'' ''N'' = Some (Fin (21 / 2))
   \<and> signedCoord ''abc'' ''N'' = None
   \<and> signedCoord ''-10.5'' ''N'' = Some (Fin (21 / 2))"
proof -
  have "signedCoord v h = None" if "toNumber v = NaN"
    using that by (simp add: signedCoord_def Number_isNaN_def)
  moreover have "\<exists>r. signedCoord v h = Some r
           \<and> r = (if h = ''S'' \<or> h = ''W'' then num_neg (Math_abs (toNumber v))
                  else Math_abs (toNumber v))
           \<and> Math_abs r = Math_abs (toNumber v)
           \<and> (if h = ''S'' \<or> h = ''W'' then num_le r (Fin 0) else num_le (Fin 0) r)"
    if "toNumber v \<noteq> NaN"
    using that
    by (simp add: signedCoord_def Number_isNaN_def Let_def Math_abs_neg Math_abs_idem
        num_le_abs num_le_neg_abs)
  moreover have "signedCoord ''10.5'' ''S'' = Some (Fin (- (21 / 2)))"
    "signedCoord ''10.5'' ''N'' = Some (Fin (21 / 2))"
    "signedCoord ''abc'' ''N'' = None"
    "signedCoord ''-10.5'' ''N'' = Some (Fin (21 / 2))"
    by (simp_all add: signedCoord_def Number_isNaN_def toNumber_10_5 toNumber_m10_5 toNumber_abc)
  ultimately show ?thesis by blast
qed

lemma signedCoord_empty: "signedCoord '''' h = Some (Fin 0)"
  by (simp add: signedCoord_def Number_isNaN_def toNumber_empty Let_def)

text \<open>
  Claim C3. For every string \<open>v\<close> and hemisphere tag \<open>h\<close>, \<open>signedCoord(v, h)\<close> is to be
  \<open>null\<close> when \<open>v\<close> is not numeric, and otherwise \<open>-abs\<close> of the parsed value for \<open>S\<close> and \<open>W\<close>
  and \<open>abs\<close> of it for any other \<open>h\<close>. The sign rule and the three examples hold (lemma
  \<open>signedCoord_hemisphere\<close>). The code decides what is numeric by
  \<open>Number.isNaN(Number(v))\<close>, and \<open>Number\<close> converts the empty string and a string of white
  space to \<open>0\<close>, not to \<open>NaN\<close>: for a magnitude that is empty or blank the guard does not
  fire and \<open>signedCoord\<close> returns the coordinate \<open>0\<close> where the claim says \<open>null\<close>. A frame
  whose latitude field is empty so decodes to a position on the equator (lemma
  \<open>parseFrame_empty_latitude\<close> below).
\<close>

theorem signedCoord_blank_magnitude:
  "signedCoord [] ''N'' = Some (Fin 0) \<and> signedCoord '' '' ''N'' = Some (Fin 0)"
  by (simp add: signedCoord_def Number_isNaN_def toNumber_empty toNumber_blank Let_def)

theorem signedCoord_blank_magnitude_witness:
  "toNumber [] \<noteq> NaN \<and> toNumber '' '' \<noteq> NaN \<and> signedCoord [] ''N'' \<noteq> None
   \<and> signedCoord '' '' ''N'' \<noteq> None"
  using signedCoord_blank_magnitude by (simp add: toNumber_empty toNumber_blank)

section \<open>The time stamp of a frame\<close>

lemma toIso_malformed:
  "\<not> six_digits dmy \<or> \<not> six_digits hms \<Longrightarrow> toIso dmy hms = None"
  by (auto simp: toIso_def)

lemma toIso_wrong_length: "toIso ''12345'' ''000000'' = None"
  by (simp add: toIso_def six_digits_def)

lemma toIso_to_Date_valid:
  "toIso ''010125'' ''235959'' = map_option toISOString
     (Date_UTC (Fin 2025) (Fin 0) (Fin 1) (Fin 23) (Fin 59) (Fin 59))"
  by (simp add: toIso_def six_digits_def slice_def toNumber_defs map_option_case)

lemma Date_UTC_valid:
  "Date_UTC (Fin 2025) (Fin 0) (Fin 1) (Fin 23) (Fin 59) (Fin 59) = Some 1735775999000"
  by code_simp

lemma toISOString_valid: "toISOString 1735775999000 = ''2025-01-01T23:59:59.000Z''"
  by code_simp

lemma toIso_valid: "toIso ''010125'' ''235959'' = Some ''2025-01-01T23:59:59.000Z''"
  by (simp add: toIso_to_Date_valid Date_UTC_valid toISOString_valid)

lemma is_digit_value: "is_digit c \<Longrightarrow> \<exists>d. digit_value c = Some d \<and> d < 10"
  by (auto simp: is_digit_def digit_value_def)

lemma is_digit_plain:
  "is_digit c \<Longrightarrow> \<not> is_white_space c \<and> c \<noteq> CHR ''-'' \<and> c \<noteq> CHR ''+'' \<and> c \<noteq> CHR ''I''"
  by (auto simp: is_digit_def is_white_space_def)

lemma toNumber_two_digits:
  assumes a: "is_digit a" and b: "is_digit b"
  shows "\<exists>n. toNumber [a, b] = Fin (of_int n) \<and> 0 \<le> n \<and> n \<le> 99"
proof -
  from is_digit_value [OF a] obtain da where da: "digit_value a = Some da" "da < 10" by blast
  from is_digit_value [OF b] obtain db where db: "digit_value b = Some db" "db < 10" by blast
  have tr: "trim [a, b] = [a, b]"
    using is_digit_plain [OF a] is_digit_plain [OF b] by (simp add: trim_def)
  have pre: "prefixed_integer [a, b] = None"
    by (simp add: prefixed_integer_def digits_number_def)
  have sg: "split_sign [a, b] = (False, [a, b])"
    using is_digit_plain [OF a] by (simp add: split_sign_def)
  have inf: "[a, b] \<noteq> ''Infinity''" by simp
  have ud: "unsigned_decimal [a, b] = Some (of_nat (10 * da + db))"
    using a b da db
    by (simp add: unsigned_decimal_def digits_number_def exponent_part_def)
  have "toNumber [a, b] = round64 (of_nat (10 * da + db))"
    using inf by (simp add: toNumber_def tr pre sg ud del: list.inject)
  also have "(of_nat (10 * da + db) :: rat) = of_int (int (10 * da + db))" by simp
  also have "round64 (of_int (int (10 * da + db))) = Fin (of_int (int (10 * da + db)))"
    using da(2) db(2) by (intro round64_of_int) simp
  finally show ?thesis using da(2) db(2) by (intro exI [of _ "int (10 * da + db)"]) simp
qed

lemma toIntegerOrInfinity_of_int [simp]: "toIntegerOrInfinity (of_int n) = n"
  by (simp add: toIntegerOrInfinity_def)

lemma num_add_small:
  "\<bar>a + b\<bar> < 2 ^ 53 \<Longrightarrow> num_add (Fin (of_int a)) (Fin (of_int b)) = Fin (of_int (a + b))"
  using round64_of_int [of "a + b"] by simp

lemma month_start_bounds:
  assumes "0 \<le> mn" "mn < 12"
  shows "0 \<le> month_start leap mn \<and> month_start leap mn \<le> 335"
proof -
  from assms have "mn = 0 \<or> mn = 1 \<or> mn = 2 \<or> mn = 3 \<or> mn = 4 \<or> mn = 5 \<or> mn = 6
      \<or> mn = 7 \<or> mn = 8 \<or> mn = 9 \<or> mn = 10 \<or> mn = 11"
    by arith
  then show ?thesis by (auto simp: month_start_def)
qed

lemma Date_UTC_in_range:
  assumes "2000 \<le> y" "y \<le> 2099" "- 1 \<le> m" "m \<le> 98" "0 \<le> d" "d \<le> 99"
    and "0 \<le> H" "H \<le> 99" "0 \<le> M" "M \<le> 99" "0 \<le> S" "S \<le> 99"
  shows "Date_UTC (Fin (of_int y)) (Fin (of_int m)) (Fin (of_int d))
           (Fin (of_int H)) (Fin (of_int M)) (Fin (of_int S)) \<noteq> None"
proof -
  define ym where "ym = y + m div 12"
  have ym: "1999 \<le> ym" "ym \<le> 2107" using assms(1-4) by (simp_all add: ym_def)
  have dy: "0 \<le> DayFromYear ym" "DayFromYear ym \<le> 60000"
    using ym by (simp_all add: DayFromYear_def)
  have ms: "0 \<le> month_start (InLeapYear ym) (m mod 12)"
    "month_start (InLeapYear ym) (m mod 12) \<le> 335"
    using month_start_bounds [of "m mod 12" "InLeapYear ym"] by simp_all
  have fy: "MakeFullYear y = y" using assms(1) by (simp add: MakeFullYear_def)
  define day where "day = MakeDay y m d"
  have day: "- 1 \<le> day" "day \<le> 61000"
    using dy ms assms(5,6) by (simp_all add: day_def MakeDay_def Let_def ym_def [symmetric])
  define tm where "tm = MakeTime H M S 0"
  have tm: "0 \<le> tm" "tm \<le> 400000000"
    using assms(7-12) by (simp_all add: tm_def MakeTime_def)
  have "\<bar>MakeDate day tm\<bar> \<le> 8640000000000000"
    using day tm by (simp add: MakeDate_def msPerDay_def)
  then show ?thesis
    by (simp add: Date_UTC_def fy TimeClip_def day_def tm_def)
qed

lemma six_digits_cases:
  assumes "six_digits s"
  obtains a b c d e f where "s = [a, b, c, d, e, f]"
    "is_digit a" "is_digit b" "is_digit c" "is_digit d" "is_digit e" "is_digit f"
proof -
  from assms have len: "length s = 6" and all: "list_all is_digit s"
    by (simp_all add: six_digits_def)
  from len obtain a b c d e f where s: "s = [a, b, c, d, e, f]"
    by (auto simp: length_Suc_conv numeral_eq_Suc)
  with all that show thesis by simp
qed

text \<open>
  For six-digit arguments \<open>toIso\<close> never returns \<open>null\<close>: every field is an integer from 0
  to 99, \<open>Date.UTC\<close> normalises whatever the fields hold, and the resulting time is far
  inside the range of a time value. The \<open>NaN\<close> branch of \<open>toIso\<close> is never taken.
\<close>

lemma toIso_never_rejects:
  assumes "six_digits dmy" "six_digits hms"
  shows "toIso dmy hms \<noteq> None"
proof -
  from assms(1) obtain a b c d e f where dmy: "dmy = [a, b, c, d, e, f]"
    and dd: "is_digit a" "is_digit b" "is_digit c" "is_digit d" "is_digit e" "is_digit f"
    by (rule six_digits_cases)
  from assms(2) obtain a' b' c' d' e' f' where hms: "hms = [a', b', c', d', e', f']"
    and hh: "is_digit a'" "is_digit b'" "is_digit c'" "is_digit d'" "is_digit e'" "is_digit f'"
    by (rule six_digits_cases)
  have sl: "slice dmy 0 2 = [a, b]" "slice dmy 2 4 = [c, d]" "slice dmy 4 6 = [e, f]"
    "slice hms 0 2 = [a', b']" "slice hms 2 4 = [c', d']" "slice hms 4 6 = [e', f']"
    by (simp_all add: slice_def dmy hms)
  from toNumber_two_digits [OF dd(1,2)] obtain D where D: "toNumber [a, b] = Fin (of_int D)"
    "0 \<le> D" "D \<le> 99" by blast
  from toNumber_two_digits [OF dd(3,4)] obtain Mo where Mo: "toNumber [c, d] = Fin (of_int Mo)"
    "0 \<le> Mo" "Mo \<le> 99" by blast
  from toNumber_two_digits [OF dd(5,6)] obtain Y where Y: "toNumber [e, f] = Fin (of_int Y)"
    "0 \<le> Y" "Y \<le> 99" by blast
  from toNumber_two_digits [OF hh(1,2)] obtain H where H: "toNumber [a', b'] = Fin (of_int H)"
    "0 \<le> H" "H \<le> 99" by blast
  from toNumber_two_digits [OF hh(3,4)] obtain Mi where Mi: "toNumber [c', d'] = Fin (of_int Mi)"
    "0 \<le> Mi" "Mi \<le> 99" by blast
  from toNumber_two_digits [OF hh(5,6)] obtain S where S: "toNumber [e', f'] = Fin (of_int S)"
    "0 \<le> S" "S \<le> 99" by blast
  have m: "num_add (Fin (of_int Mo)) (Fin (- 1)) = Fin (of_int (Mo - 1))"
    using num_add_small [of Mo "- 1"] Mo(2,3) by simp
  have y: "num_add (Fin (of_int Y)) (Fin 2000) = Fin (of_int (Y + 2000))"
    using num_add_small [of Y 2000] Y(2,3) by simp
  have "Date_UTC (Fin (of_int (Y + 2000))) (Fin (of_int (Mo - 1))) (Fin (of_int D))
           (Fin (of_int H)) (Fin (of_int Mi)) (Fin (of_int S)) \<noteq> None"
    using D(2,3) Mo(2,3) Y(2,3) H(2,3) Mi(2,3) S(2,3) by (intro Date_UTC_in_range) simp_all
  then show ?thesis
    using assms
    by (simp only: toIso_def sl D(1) Mo(1) Y(1) H(1) Mi(1) S(1) m y Let_def) auto
qed

lemma toIso_to_Date_wrapped:
  "toIso ''999999'' ''000000'' = map_option toISOString
     (Date_UTC (Fin 2099) (Fin 98) (Fin 99) (Fin 0) (Fin 0) (Fin 0))"
  by (simp add: toIso_def six_digits_def slice_def toNumber_defs map_option_case)

lemma Date_UTC_wrapped:
  "Date_UTC (Fin 2099) (Fin 98) (Fin 99) (Fin 0) (Fin 0) (Fin 0) = Some 4336848000000"
  by code_simp

lemma toISOString_wrapped: "toISOString 4336848000000 = ''2107-06-07T00:00:00.000Z''"
  by code_simp

text \<open>
  Claim C2. \<open>toIso(dmy, hms)\<close> returns \<open>null\<close> whenever either argument is not exactly six
  ASCII digits (lemma \<open>toIso_malformed\<close>), and \<open>toIso("010125","235959")\<close> is
  2025-01-01T23:59:59Z (lemma \<open>toIso_valid\<close>). The claim also says that digits which do not
  form a calendar date give \<open>null\<close>, never a wrapped date, with \<open>toIso("999999","000000")\<close>
  as its example. The code does not do that: \<open>Date.UTC\<close> carries day 99 of month 99 of
  2099 over into 7 June 2107, the time value is not \<open>NaN\<close>, and the guard
  \<open>Number.isNaN(dt.getTime())\<close> lets the wrapped date through, as it does for every pair
  of six-digit arguments (lemma \<open>toIso_never_rejects\<close>).
\<close>

theorem toIso_wraps: "toIso ''999999'' ''000000'' = Some ''2107-06-07T00:00:00.000Z''"
  by (simp add: toIso_to_Date_wrapped Date_UTC_wrapped toISOString_wrapped)

theorem toIso_wraps_witness:
  "six_digits ''999999'' \<and> six_digits ''000000'' \<and> toIso ''999999'' ''000000'' \<noteq> None"
  using toIso_wraps by (simp add: six_digits_def is_digit_def)

section \<open>Decoding a frame\<close>

lemma split_nonempty: "split sep s \<noteq> []"
  by (induction s) (auto split: list.splits)

lemma length_split_pos: "0 < length (split sep s)"
  using split_nonempty [of sep s] by simp

lemma toIso_to_Date_noon:
  "toIso ''010125'' ''120000'' = map_option toISOString
     (Date_UTC (Fin 2025) (Fin 0) (Fin 1) (Fin 12) (Fin 0) (Fin 0))"
  by (simp add: toIso_def six_digits_def slice_def toNumber_defs map_option_case)

lemma Date_UTC_noon:
  "Date_UTC (Fin 2025) (Fin 0) (Fin 1) (Fin 12) (Fin 0) (Fin 0) = Some 1735732800000"
  by code_simp

lemma toISOString_noon: "toISOString 1735732800000 = ''2025-01-01T12:00:00.000Z''"
  by code_simp

lemma toIso_noon: "toIso ''010125'' ''120000'' = Some ''2025-01-01T12:00:00.000Z''"
  by (simp add: toIso_to_Date_noon Date_UTC_noon toISOString_noon)

lemma round64_45_2: "round64 (45 / 2) = Fin (45 / 2)"
  using round64_exact [of "45 / 2" 45 "- 1"] by simp

lemma toNumber_22_5: "toNumber ''22.5'' = Fin (45 / 2)"
  by (simp add: toNumber_defs round64_45_2)

lemma toNumber_114_1: "toNumber ''114.1'' = round64 (1141 / 10)"
  by (simp add: toNumber_defs)

lemma round64_114_1: "round64 (1141 / 10) = Fin (4014536855335731 / 35184372088832)"
  by code_simp

lemma toNumber_36_0: "toNumber ''36.0'' = Fin 36"
  by (simp add: toNumber_defs)

lemma toNumber_90: "toNumber ''90'' = Fin 90"
  by (simp add: toNumber_defs)

lemma parseFrame_example:
  "parseFrame now ''[SG*123456*XX*GPS,010125,120000,A,22.5,N,114.1,E,36.0,90]''
     = Some (Position
         \<lparr> deviceId = ''123456'', vendor = ''SG'', cmd = ''GPS'',
           raw = ''GPS,010125,120000,A,22.5,N,114.1,E,36.0,90'',
           time = Some ''2025-01-01T12:00:00.000Z'', valid = True,
           lat = Some (Fin (45 / 2)), lon = Some (Fin (4014536855335731 / 35184372088832)),
           speedKph = Some (Fin 36), course = Some (Fin 90), receivedAt = now \<rparr>)"
  by (simp add: parseFrame_def slice_def Let_def toIso_noon signedCoord_def Number_isNaN_def
      finite_or_null_def toNumber_22_5 toNumber_114_1 round64_114_1 toNumber_36_0 toNumber_90)

text \<open>
  A frame whose latitude field is empty: \<open>Number("")\<close> is \<open>0\<close>, so the record has latitude
  \<open>0\<close>, and with a longitude other than \<open>0\<close> it counts as a usable position.
\<close>

lemma parseFrame_empty_latitude:
  "parseFrame now ''[SG*123456*XX*UD,010125,120000,A,,N,10,E,36.0,90]''
     = Some (Position
         \<lparr> deviceId = ''123456'', vendor = ''SG'', cmd = ''UD'',
           raw = ''UD,010125,120000,A,,N,10,E,36.0,90'',
           time = Some ''2025-01-01T12:00:00.000Z'', valid = True,
           lat = Some (Fin 0), lon = Some (Fin 10),
           speedKph = Some (Fin 36), course = Some (Fin 90), receivedAt = now \<rparr>)"
  by (simp add: parseFrame_def slice_def Let_def toIso_noon signedCoord_def Number_isNaN_def
      finite_or_null_def toNumber_empty toNumber_10 toNumber_36_0 toNumber_90)

lemma empty_latitude_usable:
  "hasUsableCoords default_config (Position
         \<lparr> deviceId = ''123456'', vendor = ''SG'', cmd = ''UD'',
           raw = ''UD,010125,120000,A,,N,10,E,36.0,90'',
           time = Some ''2025-01-01T12:00:00.000Z'', valid = True,
           lat = Some (Fin 0), lon = Some (Fin 10),
           speedKph = Some (Fin 36), course = Some (Fin 90), receivedAt = now \<rparr>)"
  by (simp add: hasUsableCoords_def default_config_def)



text \<open>
  The header of a frame on the wire. When vendor, device identifier and the third
  component contain no \<open>*\<close>, they are found again as the first three parts, and the payload
  comes back whole as \<open>raw\<close>, also when the payload itself contains \<open>*\<close>.
\<close>

lemma split_append_sep:
  "sep \<notin> set a \<Longrightarrow> split sep (a @ sep # b) = a # split sep b"
  by (induction a) auto

lemma join_split: "join [sep] (split sep s) = s"
proof (induction s)
  case Nil
  show ?case by simp
next
  case (Cons c cs)
  obtain p ps where sp: "split sep cs = p # ps"
    using split_nonempty [of sep cs] by (cases "split sep cs") auto
  show ?case
  proof (cases "c = sep")
    case True
    then show ?thesis using Cons by (simp add: sp)
  next
    case False
    then show ?thesis using Cons by (cases ps) (simp_all add: sp)
  qed
qed

lemma slice_brackets: "slice (CHR ''['' # body @ '']'') 1 (- 1) = body"
  by (simp add: slice_def)

lemma parts_of_frame:
  assumes "CHR ''*'' \<notin> set v" "CHR ''*'' \<notin> set d" "CHR ''*'' \<notin> set x"
  shows "split CHR ''*'' (v @ ''*'' @ d @ ''*'' @ x @ ''*'' @ payload)
           = v # d # x # split CHR ''*'' payload"
  using assms by (simp add: split_append_sep)

lemma parseFrame_wire:
  assumes "CHR ''*'' \<notin> set v" "CHR ''*'' \<notin> set d" "CHR ''*'' \<notin> set x"
  shows "parseFrame now (''['' @ v @ ''*'' @ d @ ''*'' @ x @ ''*'' @ payload @ '']'')
     = (let toks = split CHR '','' payload
        in if length toks < 10
           then Some (Event \<lparr> deviceId = d, vendor = v, cmd = toks ! 0, raw = payload \<rparr>)
           else Some (Position
                  \<lparr> deviceId = d, vendor = v, cmd = toks ! 0, raw = payload,
                    time = toIso (toks ! 1) (toks ! 2),
                    valid = (toks ! 3 = ''A''),
                    lat = signedCoord (toks ! 4) (toks ! 5),
                    lon = signedCoord (toks ! 6) (toks ! 7),
                    speedKph = finite_or_null (toNumber (toks ! 8)),
                    course = finite_or_null (toNumber (toks ! 9)),
                    receivedAt = now \<rparr>))"
proof -
  define frame where "frame = ''['' @ v @ ''*'' @ d @ ''*'' @ x @ ''*'' @ payload @ '']''"
  define body where "body = v @ ''*'' @ d @ ''*'' @ x @ ''*'' @ payload"
  define toks where "toks = split CHR '','' payload"
  have toks: "toks \<noteq> []" by (simp add: toks_def split_nonempty)
  have "frame = CHR ''['' # body @ '']''" by (simp add: frame_def body_def)
  then have sl: "slice frame 1 (- 1) = body" by (simp only: slice_brackets)
  have parts: "split CHR ''*'' body = v # d # x # split CHR ''*'' payload"
    unfolding body_def using assms by (rule parts_of_frame)
  have pl: "join ''*'' (split CHR ''*'' payload) = payload" by (rule join_split)
  have hd0: "hd toks = toks ! 0" using toks by (simp add: hd_conv_nth)
  have len: "length (tl toks) < 9 \<longleftrightarrow> length toks < 10" using toks by (cases toks) auto
  have nth: "tl toks ! i = toks ! Suc i" if "i < length (tl toks)" for i
    using toks that by (simp add: nth_tl)
  have "parseFrame now frame
     = (if length toks < 10
           then Some (Event \<lparr> deviceId = d, vendor = v, cmd = toks ! 0, raw = payload \<rparr>)
           else Some (Position
                  \<lparr> deviceId = d, vendor = v, cmd = toks ! 0, raw = payload,
                    time = toIso (toks ! 1) (toks ! 2),
                    valid = (toks ! 3 = ''A''),
                    lat = signedCoord (toks ! 4) (toks ! 5),
                    lon = signedCoord (toks ! 6) (toks ! 7),
                    speedKph = finite_or_null (toNumber (toks ! 8)),
                    course = finite_or_null (toNumber (toks ! 9)),
                    receivedAt = now \<rparr>))"
  proof (cases "length toks < 10")
    case True
    then show ?thesis
      using len hd0
      by (simp add: parseFrame_def sl parts pl Let_def toks_def [symmetric] split_nonempty)
  next
    case False
    then have l9: "\<not> length (tl toks) < 9" using len by simp
    then have "tl toks ! 0 = toks ! 1" "tl toks ! 1 = toks ! 2" "tl toks ! 2 = toks ! 3"
      "tl toks ! 3 = toks ! 4" "tl toks ! 4 = toks ! 5" "tl toks ! 5 = toks ! 6"
      "tl toks ! 6 = toks ! 7" "tl toks ! 7 = toks ! 8" "tl toks ! 8 = toks ! 9"
      using nth by (simp_all add: numeral_eq_Suc)
    then show ?thesis
      using False l9 hd0
      by (simp add: parseFrame_def sl parts pl Let_def toks_def [symmetric] split_nonempty)
  qed
  then show ?thesis by (simp only: frame_def toks_def Let_def)
qed

section \<open>Usable coordinates and the forwarding policy\<close>

lemma hasUsableCoords_Position:
  "hasUsableCoords cfg pos \<Longrightarrow> \<exists>p. pos = Position p"
  by (cases pos) (simp_all add: hasUsableCoords_def)

lemma hasUsableCoords_char:
  "hasUsableCoords cfg pos \<longleftrightarrow>
     (\<exists>a b. lat_of pos = Some (Fin a) \<and> lon_of pos = Some (Fin b)
        \<and> \<bar>a\<bar> \<le> 90 \<and> \<bar>b\<bar> \<le> 180
        \<and> (FORWARD_ALLOW_ZERO_COORDS cfg \<or> \<not> (a = 0 \<and> b = 0)))"
proof (cases "lat_of pos")
  case None
  then show ?thesis by (simp add: hasUsableCoords_def)
next
  case (Some x)
  note la = Some
  show ?thesis
  proof (cases "lon_of pos")
    case None
    then show ?thesis by (cases x) (simp_all add: hasUsableCoords_def la)
  next
    case (Some y)
    then show ?thesis
      by (cases x; cases y) (auto simp: hasUsableCoords_def la Let_def)
  qed
qed

lemma handle_frame_usable:
  "parseFrame now frame = Some (Position p) \<Longrightarrow> hasUsableCoords cfg (Position p) \<Longrightarrow>
     handle_frame cfg now st frame
       = st \<lparr> lastPositions := (lastPositions st)(deviceId p \<mapsto> \<lparr> pos_fields = Some p, lastEvent = None \<rparr>),
              data_file := data_file st @ [p],
              forwarded := (if FORWARD_ENABLED cfg \<and> (\<not> FORWARD_ONLY_VALID cfg \<or> valid p)
                            then forwarded st @ [forwardPosition cfg p]
                            else forwarded st) \<rparr>"
  by (simp add: handle_frame_def Let_def)

lemma handle_frame_unusable:
  "parseFrame now frame = Some pos \<Longrightarrow> \<not> hasUsableCoords cfg pos \<Longrightarrow>
     handle_frame cfg now st frame
       = st \<lparr> lastPositions := (lastPositions st)
               (deviceId_of pos \<mapsto> merge_lastEvent (lastPositions st (deviceId_of pos)) pos) \<rparr>"
  by (simp add: handle_frame_def)

lemma handle_frame_undecoded:
  "parseFrame now frame = None \<Longrightarrow> handle_frame cfg now st frame = st"
  by (simp add: handle_frame_def)

text \<open>
  Claim C5, as the handler has it. For every decoded record, \<open>hasUsableCoords\<close> is true if
  and only if \<open>lat\<close> and \<open>lon\<close> are both finite numbers with \<open>|lat| \<le> 90\<close> and \<open>|lon| \<le> 180\<close>
  and, unless \<open>FORWARD_ALLOW_ZERO_COORDS\<close> is set, the pair is not exactly \<open>(0, 0)\<close>.
  Consequently a frame that decodes to \<open>lat = 0\<close>, \<open>lon = 0\<close> is, with the flag off, not
  appended to the file and not forwarded, and it does not become the device's position:
  the store keeps it as \<open>lastEvent\<close> of the device's entry, beside the position stored
  before, if any. With the flag on it replaces the device's entry and is appended to the
  file, and it is forwarded exactly when \<open>FORWARD_ENABLED\<close> is set and \<open>FORWARD_ONLY_VALID\<close>
  is off or the record is valid. The claim's wording, excluded from storage with the flag
  off and included in forwarding with it on, fails on both counts (theorem
  \<open>zero_coords_in_store_and_unforwarded\<close> below).
\<close>

theorem hasUsableCoords_policy:
  "(hasUsableCoords cfg pos \<longleftrightarrow>
      (\<exists>a b. lat_of pos = Some (Fin a) \<and> lon_of pos = Some (Fin b)
         \<and> \<bar>a\<bar> \<le> 90 \<and> \<bar>b\<bar> \<le> 180
         \<and> (FORWARD_ALLOW_ZERO_COORDS cfg \<or> \<not> (a = 0 \<and> b = 0))))
   \<and> (parseFrame now frame = Some (Position p) \<and> lat p = Some (Fin 0) \<and> lon p = Some (Fin 0)
        \<and> \<not> FORWARD_ALLOW_ZERO_COORDS cfg \<longrightarrow>
          data_file (handle_frame cfg now st frame) = data_file st
          \<and> forwarded (handle_frame cfg now st frame) = forwarded st
          \<and> lastPositions (handle_frame cfg now st frame)
              = (lastPositions st)(deviceId p \<mapsto>
                   (case lastPositions st (deviceId p) of
                      None \<Rightarrow> \<lparr> pos_fields = None, lastEvent = Some (Position p) \<rparr>
                    | Some e \<Rightarrow> e \<lparr> lastEvent := Some (Position p) \<rparr>)))
   \<and> (parseFrame now frame = Some (Position p) \<and> lat p = Some (Fin 0) \<and> lon p = Some (Fin 0)
        \<and> FORWARD_ALLOW_ZERO_COORDS cfg \<longrightarrow>
          data_file (handle_frame cfg now st frame) = data_file st @ [p]
          \<and> forwarded (handle_frame cfg now st frame)
              = (if FORWARD_ENABLED cfg \<and> (\<not> FORWARD_ONLY_VALID cfg \<or> valid p)
                 then forwarded st @ [forwardPosition cfg p] else forwarded st)
          \<and> lastPositions (handle_frame cfg now st frame)
              = (lastPositions st)(deviceId p \<mapsto> \<lparr> pos_fields = Some p, lastEvent = None \<rparr>))"
proof -
  have off: "\<not> hasUsableCoords cfg (Position p)"
    if "lat p = Some (Fin 0)" "lon p = Some (Fin 0)" "\<not> FORWARD_ALLOW_ZERO_COORDS cfg"
    using that by (simp add: hasUsableCoords_def)
  have on: "hasUsableCoords cfg (Position p)"
    if "lat p = Some (Fin 0)" "lon p = Some (Fin 0)" "FORWARD_ALLOW_ZERO_COORDS cfg"
    using that by (simp add: hasUsableCoords_def)
  show ?thesis
    using hasUsableCoords_char [of cfg pos]
      handle_frame_unusable [of now frame "Position p" cfg st, OF _ off]
      handle_frame_usable [of now frame p cfg st, OF _ on]
    by (simp add: merge_lastEvent_def)
qed

lemma toNumber_0_0: "toNumber ''0.0'' = Fin 0"
  by (simp add: toNumber_defs)

lemma toNumber_0: "toNumber ''0'' = Fin 0"
  by (simp add: toNumber_defs)

lemma parseFrame_zero:
  "parseFrame now ''[SG*123456*XX*UD,010125,120000,V,0.0,N,0.0,E,0,0]''
     = Some (Position
         \<lparr> deviceId = ''123456'', vendor = ''SG'', cmd = ''UD'',
           raw = ''UD,010125,120000,V,0.0,N,0.0,E,0,0'',
           time = Some ''2025-01-01T12:00:00.000Z'', valid = False,
           lat = Some (Fin 0), lon = Some (Fin 0),
           speedKph = Some (Fin 0), course = Some (Fin 0), receivedAt = now \<rparr>)"
  by (simp add: parseFrame_def slice_def Let_def toIso_noon signedCoord_def Number_isNaN_def
      finite_or_null_def toNumber_0_0 toNumber_0)

theorem hasUsableCoords_policy_witness:
  "parseFrame ''2025-01-01T12:00:01.000Z'' ''[SG*123456*XX*UD,010125,120000,V,0.0,N,0.0,E,0,0]''
     = Some (Position
         \<lparr> deviceId = ''123456'', vendor = ''SG'', cmd = ''UD'',
           raw = ''UD,010125,120000,V,0.0,N,0.0,E,0,0'',
           time = Some ''2025-01-01T12:00:00.000Z'', valid = False,
           lat = Some (Fin 0), lon = Some (Fin 0),
           speedKph = Some (Fin 0), course = Some (Fin 0),
           receivedAt = ''2025-01-01T12:00:01.000Z'' \<rparr>)
   \<and> \<not> FORWARD_ALLOW_ZERO_COORDS default_config
   \<and> data_file (handle_frame default_config ''2025-01-01T12:00:01.000Z'' initial_state
         ''[SG*123456*XX*UD,010125,120000,V,0.0,N,0.0,E,0,0]'') = []
   \<and> forwarded (handle_frame default_config ''2025-01-01T12:00:01.000Z'' initial_state
         ''[SG*123456*XX*UD,010125,120000,V,0.0,N,0.0,E,0,0]'') = []
   \<and> FORWARD_ALLOW_ZERO_COORDS (default_config \<lparr> FORWARD_ALLOW_ZERO_COORDS := True \<rparr>)
   \<and> length (data_file (handle_frame (default_config \<lparr> FORWARD_ALLOW_ZERO_COORDS := True \<rparr>)
         ''2025-01-01T12:00:01.000Z'' initial_state
         ''[SG*123456*XX*UD,010125,120000,V,0.0,N,0.0,E,0,0]'')) = 1
   \<and> forwarded (handle_frame (default_config \<lparr> FORWARD_ALLOW_ZERO_COORDS := True \<rparr>)
         ''2025-01-01T12:00:01.000Z'' initial_state
         ''[SG*123456*XX*UD,010125,120000,V,0.0,N,0.0,E,0,0]'') = []
   \<and> length (forwarded (handle_frame
         (default_config \<lparr> FORWARD_ONLY_VALID := False, FORWARD_ALLOW_ZERO_COORDS := True \<rparr>)
         ''2025-01-01T12:00:01.000Z'' initial_state
         ''[SG*123456*XX*UD,010125,120000,V,0.0,N,0.0,E,0,0]'')) = 1"
proof -
  let ?now = "''2025-01-01T12:00:01.000Z''"
  let ?frame = "''[SG*123456*XX*UD,010125,120000,V,0.0,N,0.0,E,0,0]''"
  let ?p = "\<lparr> deviceId = ''123456'', vendor = ''SG'', cmd = ''UD'',
           raw = ''UD,010125,120000,V,0.0,N,0.0,E,0,0'',
           time = Some ''2025-01-01T12:00:00.000Z'', valid = False,
           lat = Some (Fin 0), lon = Some (Fin 0),
           speedKph = Some (Fin 0), course = Some (Fin 0),
           receivedAt = ?now \<rparr>"
  note pz = parseFrame_zero [of ?now]
  have off: "data_file (handle_frame default_config ?now initial_state ?frame) = []
     \<and> forwarded (handle_frame default_config ?now initial_state ?frame) = []"
    using hasUsableCoords_policy [of default_config "Position ?p" ?now ?frame ?p initial_state] pz
    by (simp add: default_config_def initial_state_def)
  have on: "length (data_file (handle_frame (default_config \<lparr> FORWARD_ALLOW_ZERO_COORDS := True \<rparr>)
         ?now initial_state ?frame)) = 1
     \<and> forwarded (handle_frame (default_config \<lparr> FORWARD_ALLOW_ZERO_COORDS := True \<rparr>)
         ?now initial_state ?frame) = []"
    using hasUsableCoords_policy [of "default_config \<lparr> FORWARD_ALLOW_ZERO_COORDS := True \<rparr>"
        "Position ?p" ?now ?frame ?p initial_state] pz
    by (simp add: default_config_def initial_state_def)
  have any: "length (forwarded (handle_frame
         (default_config \<lparr> FORWARD_ONLY_VALID := False, FORWARD_ALLOW_ZERO_COORDS := True \<rparr>)
         ?now initial_state ?frame)) = 1"
    using hasUsableCoords_policy [of
        "default_config \<lparr> FORWARD_ONLY_VALID := False, FORWARD_ALLOW_ZERO_COORDS := True \<rparr>"
        "Position ?p" ?now ?frame ?p initial_state] pz
    by (simp add: default_config_def initial_state_def)
  show ?thesis using pz off on any by (simp add: default_config_def)
qed

text \<open>
  The claim as worded fails at the frame of the witness. With the flag off the record is
  not kept out of the store: after the frame, \<open>lastPositions\<close> holds it as \<open>lastEvent\<close> of
  the device's entry. With the flag on, and forwarding enabled, the record is stored and
  appended to the file but not forwarded, since the fix is not valid and
  \<open>FORWARD_ONLY_VALID\<close> is on.
\<close>

theorem zero_coords_in_store_and_unforwarded:
  "\<not> FORWARD_ALLOW_ZERO_COORDS default_config
   \<and> lastPositions (handle_frame default_config ''2025-01-01T12:00:01.000Z'' initial_state
         ''[SG*123456*XX*UD,010125,120000,V,0.0,N,0.0,E,0,0]'') ''123456''
       = Some \<lparr> pos_fields = None,
                lastEvent = Some (Position
                  \<lparr> deviceId = ''123456'', vendor = ''SG'', cmd = ''UD'',
                    raw = ''UD,010125,120000,V,0.0,N,0.0,E,0,0'',
                    time = Some ''2025-01-01T12:00:00.000Z'', valid = False,
                    lat = Some (Fin 0), lon = Some (Fin 0),
                    speedKph = Some (Fin 0), course = Some (Fin 0),
                    receivedAt = ''2025-01-01T12:00:01.000Z'' \<rparr>) \<rparr>
   \<and> FORWARD_ALLOW_ZERO_COORDS (default_config \<lparr> FORWARD_ALLOW_ZERO_COORDS := True \<rparr>)
   \<and> FORWARD_ENABLED (default_config \<lparr> FORWARD_ALLOW_ZERO_COORDS := True \<rparr>)
   \<and> length (data_file (handle_frame (default_config \<lparr> FORWARD_ALLOW_ZERO_COORDS := True \<rparr>)
         ''2025-01-01T12:00:01.000Z'' initial_state
         ''[SG*123456*XX*UD,010125,120000,V,0.0,N,0.0,E,0,0]'')) = 1
   \<and> forwarded (handle_frame (default_config \<lparr> FORWARD_ALLOW_ZERO_COORDS := True \<rparr>)
         ''2025-01-01T12:00:01.000Z'' initial_state
         ''[SG*123456*XX*UD,010125,120000,V,0.0,N,0.0,E,0,0]'') = []"
proof -
  let ?now = "''2025-01-01T12:00:01.000Z''"
  let ?frame = "''[SG*123456*XX*UD,010125,120000,V,0.0,N,0.0,E,0,0]''"
  let ?p = "\<lparr> deviceId = ''123456'', vendor = ''SG'', cmd = ''UD'',
           raw = ''UD,010125,120000,V,0.0,N,0.0,E,0,0'',
           time = Some ''2025-01-01T12:00:00.000Z'', valid = False,
           lat = Some (Fin 0), lon = Some (Fin 0),
           speedKph = Some (Fin 0), course = Some (Fin 0),
           receivedAt = ?now \<rparr>"
  let ?on = "default_config \<lparr> FORWARD_ALLOW_ZERO_COORDS := True \<rparr>"
  note pz = parseFrame_zero [of ?now]
  have unusable: "\<not> hasUsableCoords default_config (Position ?p)"
    by (simp add: hasUsableCoords_def default_config_def)
  have usable: "hasUsableCoords ?on (Position ?p)"
    by (simp add: hasUsableCoords_def default_config_def)
  have off: "lastPositions (handle_frame default_config ?now initial_state ?frame) ''123456''
      = Some \<lparr> pos_fields = None, lastEvent = Some (Position ?p) \<rparr>"
    using handle_frame_unusable [OF pz unusable, of initial_state]
    by (simp add: initial_state_def merge_lastEvent_def)
  have on: "length (data_file (handle_frame ?on ?now initial_state ?frame)) = 1
      \<and> forwarded (handle_frame ?on ?now initial_state ?frame) = []"
    using handle_frame_usable [OF pz usable, of initial_state]
    by (simp add: initial_state_def default_config_def)
  show ?thesis using off on by (simp add: default_config_def)
qed

lemma parseFrame_invalid_fix:
  "parseFrame now ''[SG*123456*XX*UD,010125,120000,V,22.5,N,114.1,E,36.0,90]''
     = Some (Position
         \<lparr> deviceId = ''123456'', vendor = ''SG'', cmd = ''UD'',
           raw = ''UD,010125,120000,V,22.5,N,114.1,E,36.0,90'',
           time = Some ''2025-01-01T12:00:00.000Z'', valid = False,
           lat = Some (Fin (45 / 2)), lon = Some (Fin (4014536855335731 / 35184372088832)),
           speedKph = Some (Fin 36), course = Some (Fin 90), receivedAt = now \<rparr>)"
  by (simp add: parseFrame_def slice_def Let_def toIso_noon signedCoord_def Number_isNaN_def
      finite_or_null_def toNumber_22_5 toNumber_114_1 round64_114_1 toNumber_36_0 toNumber_90)

lemma parseFrame_too_short: "parseFrame now ''[SG*123456]'' = None"
  by (simp add: parseFrame_def slice_def Let_def)

text \<open>
  Claim C6. A usable position record is forwarded if and only if \<open>FORWARD_ENABLED\<close> is set
  and \<open>FORWARD_ONLY_VALID\<close> is off or the record's \<open>valid\<close> flag is true. With
  \<open>FORWARD_ONLY_VALID\<close> on, a usable record with \<open>valid = false\<close> is still stored and
  appended to the file but not forwarded; with it off (and forwarding enabled) such a
  record is forwarded. A frame that does not decode to a usable position forwards nothing.
\<close>

theorem forwarding_policy:
  "(parseFrame now frame = Some (Position p) \<and> hasUsableCoords cfg (Position p) \<longrightarrow>
      forwarded (handle_frame cfg now st frame)
        = (if FORWARD_ENABLED cfg \<and> (\<not> FORWARD_ONLY_VALID cfg \<or> valid p)
           then forwarded st @ [forwardPosition cfg p] else forwarded st)
      \<and> data_file (handle_frame cfg now st frame) = data_file st @ [p]
      \<and> lastPositions (handle_frame cfg now st frame) (deviceId p)
          = Some \<lparr> pos_fields = Some p, lastEvent = None \<rparr>)
   \<and> (parseFrame now frame = Some (Position p) \<and> hasUsableCoords cfg (Position p)
        \<and> FORWARD_ONLY_VALID cfg \<and> \<not> valid p \<longrightarrow>
          forwarded (handle_frame cfg now st frame) = forwarded st)
   \<and> (parseFrame now frame = Some (Position p) \<and> hasUsableCoords cfg (Position p)
        \<and> \<not> FORWARD_ONLY_VALID cfg \<and> FORWARD_ENABLED cfg \<longrightarrow>
          forwarded (handle_frame cfg now st frame) = forwarded st @ [forwardPosition cfg p])
   \<and> ((\<forall>q. parseFrame now frame = Some (Position q) \<longrightarrow> \<not> hasUsableCoords cfg (Position q)) \<longrightarrow>
          forwarded (handle_frame cfg now st frame) = forwarded st)"
proof -
  have unusable: "forwarded (handle_frame cfg now st frame) = forwarded st"
    if "\<forall>q. parseFrame now frame = Some (Position q) \<longrightarrow> \<not> hasUsableCoords cfg (Position q)"
  proof (cases "parseFrame now frame")
    case None
    then show ?thesis by (simp add: handle_frame_undecoded)
  next
    case (Some pos)
    have "\<not> hasUsableCoords cfg pos"
    proof
      assume u: "hasUsableCoords cfg pos"
      then obtain q where "pos = Position q" using hasUsableCoords_Position by blast
      with that Some u show False by simp
    qed
    then show ?thesis using Some by (simp add: handle_frame_unusable)
  qed
  show ?thesis
    using handle_frame_usable [of now frame p cfg st] unusable by simp
qed


theorem forwarding_policy_witness:
  "parseFrame ''2025-01-01T12:00:01.000Z'' ''[SG*123456*XX*UD,010125,120000,V,22.5,N,114.1,E,36.0,90]''
     = Some (Position
         \<lparr> deviceId = ''123456'', vendor = ''SG'', cmd = ''UD'',
           raw = ''UD,010125,120000,V,22.5,N,114.1,E,36.0,90'',
           time = Some ''2025-01-01T12:00:00.000Z'', valid = False,
           lat = Some (Fin (45 / 2)), lon = Some (Fin (4014536855335731 / 35184372088832)),
           speedKph = Some (Fin 36), course = Some (Fin 90),
           receivedAt = ''2025-01-01T12:00:01.000Z'' \<rparr>)
   \<and> hasUsableCoords default_config (Position
         \<lparr> deviceId = ''123456'', vendor = ''SG'', cmd = ''UD'',
           raw = ''UD,010125,120000,V,22.5,N,114.1,E,36.0,90'',
           time = Some ''2025-01-01T12:00:00.000Z'', valid = False,
           lat = Some (Fin (45 / 2)), lon = Some (Fin (4014536855335731 / 35184372088832)),
           speedKph = Some (Fin 36), course = Some (Fin 90),
           receivedAt = ''2025-01-01T12:00:01.000Z'' \<rparr>)
   \<and> FORWARD_ENABLED default_config \<and> FORWARD_ONLY_VALID default_config
   \<and> forwarded (handle_frame default_config ''2025-01-01T12:00:01.000Z'' initial_state
         ''[SG*123456*XX*UD,010125,120000,V,22.5,N,114.1,E,36.0,90]'') = []
   \<and> length (data_file (handle_frame default_config ''2025-01-01T12:00:01.000Z'' initial_state
         ''[SG*123456*XX*UD,010125,120000,V,22.5,N,114.1,E,36.0,90]'')) = 1
   \<and> length (forwarded (handle_frame (default_config \<lparr> FORWARD_ONLY_VALID := False \<rparr>)
         ''2025-01-01T12:00:01.000Z'' initial_state
         ''[SG*123456*XX*UD,010125,120000,V,22.5,N,114.1,E,36.0,90]'')) = 1
   \<and> parseFrame ''2025-01-01T12:00:01.000Z'' ''[SG*123456]'' = None
   \<and> forwarded (handle_frame default_config ''2025-01-01T12:00:01.000Z'' initial_state
         ''[SG*123456]'') = []"
proof -
  let ?now = "''2025-01-01T12:00:01.000Z''"
  let ?frame = "''[SG*123456*XX*UD,010125,120000,V,22.5,N,114.1,E,36.0,90]''"
  let ?p = "\<lparr> deviceId = ''123456'', vendor = ''SG'', cmd = ''UD'',
           raw = ''UD,010125,120000,V,22.5,N,114.1,E,36.0,90'',
           time = Some ''2025-01-01T12:00:00.000Z'', valid = False,
           lat = Some (Fin (45 / 2)), lon = Some (Fin (4014536855335731 / 35184372088832)),
           speedKph = Some (Fin 36), course = Some (Fin 90),
           receivedAt = ?now \<rparr>"
  note pf = parseFrame_invalid_fix [of ?now]
  have us: "hasUsableCoords cfg (Position ?p)" for cfg
    by (simp add: hasUsableCoords_def)
  have a: "forwarded (handle_frame default_config ?now initial_state ?frame) = []
     \<and> length (data_file (handle_frame default_config ?now initial_state ?frame)) = 1"
    using forwarding_policy [of ?now ?frame ?p default_config initial_state] pf us
    by (simp add: default_config_def initial_state_def)
  have b: "length (forwarded (handle_frame (default_config \<lparr> FORWARD_ONLY_VALID := False \<rparr>)
         ?now initial_state ?frame)) = 1"
    using forwarding_policy [of ?now ?frame ?p "default_config \<lparr> FORWARD_ONLY_VALID := False \<rparr>"
        initial_state] pf us
    by (simp add: default_config_def initial_state_def)
  have c: "forwarded (handle_frame default_config ?now initial_state ''[SG*123456]'') = []"
    using forwarding_policy [of ?now "''[SG*123456]''" ?p default_config initial_state]
    by (simp add: parseFrame_too_short initial_state_def)
  show ?thesis using pf us a b c by (simp add: default_config_def parseFrame_too_short)
qed

section \<open>The device state store\<close>

lemma parseFrame_event: 
  "parseFrame now ''[SG*123456*0002*LK,100]''
     = Some (Event \<lparr> deviceId = ''123456'', vendor = ''SG'', cmd = ''LK'', raw = ''LK,100'' \<rparr>)"
  by (simp add: parseFrame_def slice_def Let_def)

text \<open>
  Claim C7. Processing a record with usable coordinates replaces the device's entry
  wholesale with the new position record; processing a record without usable coordinates
  (an event, or a position that is not usable) sets \<open>lastEvent\<close> on the existing entry and
  keeps the rest of it, creating an entry with only \<open>lastEvent\<close> if there was none. In
  particular, after a usable position R1 and then an event R2 of the same device, the
  entry holds R1's fields and \<open>lastEvent = R2\<close>.
\<close>

theorem store_write_rule:
  "(parseFrame now frame = Some (Position p) \<and> hasUsableCoords cfg (Position p) \<longrightarrow>
      lastPositions (handle_frame cfg now st frame)
        = (lastPositions st)(deviceId p \<mapsto> \<lparr> pos_fields = Some p, lastEvent = None \<rparr>))
   \<and> (parseFrame now frame = Some pos \<and> \<not> hasUsableCoords cfg pos \<longrightarrow>
        lastPositions (handle_frame cfg now st frame)
          = (lastPositions st)(deviceId_of pos \<mapsto>
               (case lastPositions st (deviceId_of pos) of
                  None \<Rightarrow> \<lparr> pos_fields = None, lastEvent = Some pos \<rparr>
                | Some e \<Rightarrow> \<lparr> pos_fields = pos_fields e, lastEvent = Some pos \<rparr>)))
   \<and> (parseFrame now1 frame1 = Some (Position r1) \<and> hasUsableCoords cfg (Position r1)
        \<and> parseFrame now2 frame2 = Some (Event r2) \<and> deviceId r2 = deviceId r1 \<longrightarrow>
        lastPositions (handle_frame cfg now2 (handle_frame cfg now1 st frame1) frame2) (deviceId r1)
          = Some \<lparr> pos_fields = Some r1, lastEvent = Some (Event r2) \<rparr>)"
proof -
  have ev: "\<not> hasUsableCoords cfg (Event e)" for e
    by (simp add: hasUsableCoords_def)
  have merge: "merge_lastEvent old x
      = (case old of None \<Rightarrow> \<lparr> pos_fields = None, lastEvent = Some x \<rparr>
         | Some e \<Rightarrow> \<lparr> pos_fields = pos_fields e, lastEvent = Some x \<rparr>)" for old x
    by (cases old) (simp_all add: merge_lastEvent_def)
  have seq: "lastPositions (handle_frame cfg now2 (handle_frame cfg now1 st frame1) frame2) (deviceId r1)
          = Some \<lparr> pos_fields = Some r1, lastEvent = Some (Event r2) \<rparr>"
    if "parseFrame now1 frame1 = Some (Position r1)" "hasUsableCoords cfg (Position r1)"
      "parseFrame now2 frame2 = Some (Event r2)" "deviceId r2 = deviceId r1"
    using that ev [of r2]
    by (simp add: handle_frame_usable handle_frame_unusable merge)
  show ?thesis
    using handle_frame_usable [of now frame p cfg st]
      handle_frame_unusable [of now frame pos cfg st] seq
    by (simp add: merge)
qed


theorem store_write_rule_witness:
  "parseFrame ''2025-01-01T12:00:01.000Z''
       ''[SG*123456*XX*GPS,010125,120000,A,22.5,N,114.1,E,36.0,90]''
     = Some (Position
         \<lparr> deviceId = ''123456'', vendor = ''SG'', cmd = ''GPS'',
           raw = ''GPS,010125,120000,A,22.5,N,114.1,E,36.0,90'',
           time = Some ''2025-01-01T12:00:00.000Z'', valid = True,
           lat = Some (Fin (45 / 2)), lon = Some (Fin (4014536855335731 / 35184372088832)),
           speedKph = Some (Fin 36), course = Some (Fin 90),
           receivedAt = ''2025-01-01T12:00:01.000Z'' \<rparr>)
   \<and> hasUsableCoords default_config (Position
         \<lparr> deviceId = ''123456'', vendor = ''SG'', cmd = ''GPS'',
           raw = ''GPS,010125,120000,A,22.5,N,114.1,E,36.0,90'',
           time = Some ''2025-01-01T12:00:00.000Z'', valid = True,
           lat = Some (Fin (45 / 2)), lon = Some (Fin (4014536855335731 / 35184372088832)),
           speedKph = Some (Fin 36), course = Some (Fin 90),
           receivedAt = ''2025-01-01T12:00:01.000Z'' \<rparr>)
   \<and> parseFrame ''2025-01-01T12:00:02.000Z'' ''[SG*123456*0002*LK,100]''
     = Some (Event \<lparr> deviceId = ''123456'', vendor = ''SG'', cmd = ''LK'', raw = ''LK,100'' \<rparr>)
   \<and> \<not> hasUsableCoords default_config
         (Event \<lparr> deviceId = ''123456'', vendor = ''SG'', cmd = ''LK'', raw = ''LK,100'' \<rparr>)
   \<and> lastPositions
         (handle_frame default_config ''2025-01-01T12:00:02.000Z''
            (handle_frame default_config ''2025-01-01T12:00:01.000Z'' initial_state
               ''[SG*123456*XX*GPS,010125,120000,A,22.5,N,114.1,E,36.0,90]'')
            ''[SG*123456*0002*LK,100]'') ''123456''
       = Some \<lparr> pos_fields = Some
           \<lparr> deviceId = ''123456'', vendor = ''SG'', cmd = ''GPS'',
             raw = ''GPS,010125,120000,A,22.5,N,114.1,E,36.0,90'',
             time = Some ''2025-01-01T12:00:00.000Z'', valid = True,
             lat = Some (Fin (45 / 2)), lon = Some (Fin (4014536855335731 / 35184372088832)),
             speedKph = Some (Fin 36), course = Some (Fin 90),
             receivedAt = ''2025-01-01T12:00:01.000Z'' \<rparr>,
           lastEvent = Some (Event
             \<lparr> deviceId = ''123456'', vendor = ''SG'', cmd = ''LK'', raw = ''LK,100'' \<rparr>) \<rparr>
   \<and> lastPositions
         (handle_frame default_config ''2025-01-01T12:00:02.000Z'' initial_state
            ''[SG*123456*0002*LK,100]'') ''123456''
       = Some \<lparr> pos_fields = None, lastEvent = Some (Event
             \<lparr> deviceId = ''123456'', vendor = ''SG'', cmd = ''LK'', raw = ''LK,100'' \<rparr>) \<rparr>"
proof -
  let ?now1 = "''2025-01-01T12:00:01.000Z''"
  let ?now2 = "''2025-01-01T12:00:02.000Z''"
  let ?f1 = "''[SG*123456*XX*GPS,010125,120000,A,22.5,N,114.1,E,36.0,90]''"
  let ?f2 = "''[SG*123456*0002*LK,100]''"
  let ?r1 = "\<lparr> deviceId = ''123456'', vendor = ''SG'', cmd = ''GPS'',
           raw = ''GPS,010125,120000,A,22.5,N,114.1,E,36.0,90'',
           time = Some ''2025-01-01T12:00:00.000Z'', valid = True,
           lat = Some (Fin (45 / 2)), lon = Some (Fin (4014536855335731 / 35184372088832)),
           speedKph = Some (Fin 36), course = Some (Fin 90),
           receivedAt = ?now1 \<rparr>"
  let ?r2 = "\<lparr> deviceId = ''123456'', vendor = ''SG'', cmd = ''LK'', raw = ''LK,100'' \<rparr>"
  note p1 = parseFrame_example [of ?now1]
  note p2 = parseFrame_event [of ?now2]
  have us: "hasUsableCoords default_config (Position ?r1)"
    by (simp add: hasUsableCoords_def)
  have ev: "\<not> hasUsableCoords default_config (Event ?r2)"
    by (simp add: hasUsableCoords_def)
  have a: "lastPositions (handle_frame default_config ?now2
             (handle_frame default_config ?now1 initial_state ?f1) ?f2) ''123456''
       = Some \<lparr> pos_fields = Some ?r1, lastEvent = Some (Event ?r2) \<rparr>"
    using store_write_rule [where cfg = default_config and st = initial_state
        and ?now1.0 = ?now1 and ?frame1.0 = ?f1 and ?r1.0 = ?r1
        and ?now2.0 = ?now2 and ?frame2.0 = ?f2 and ?r2.0 = ?r2] p1 p2 us
    by simp
  have b: "lastPositions (handle_frame default_config ?now2 initial_state ?f2) ''123456''
       = Some \<lparr> pos_fields = None, lastEvent = Some (Event ?r2) \<rparr>"
    using store_write_rule [where cfg = default_config and st = initial_state
        and now = ?now2 and frame = ?f2 and pos = "Event ?r2"] p2 ev
    by (simp add: initial_state_def)
  show ?thesis using p1 p2 us ev a b by simp
qed

section \<open>Independence of the devices\<close>

lemma handle_frame_other_keys:
  "parseFrame now frame = Some pos \<Longrightarrow> k \<noteq> deviceId_of pos \<Longrightarrow>
     lastPositions (handle_frame cfg now st frame) k = lastPositions st k"
proof (cases "hasUsableCoords cfg pos")
  case True
  assume pf: "parseFrame now frame = Some pos" and k: "k \<noteq> deviceId_of pos"
  from True obtain p where p: "pos = Position p" using hasUsableCoords_Position by blast
  with pf True k show ?thesis by (simp add: handle_frame_usable)
next
  case False
  assume "parseFrame now frame = Some pos" "k \<noteq> deviceId_of pos"
  with False show ?thesis by (simp add: handle_frame_unusable)
qed

lemma handle_frame_dom:
  "dom (lastPositions st) \<subseteq> dom (lastPositions (handle_frame cfg now st frame))"
proof (cases "parseFrame now frame")
  case None
  then show ?thesis by (simp add: handle_frame_undecoded)
next
  case (Some pos)
  show ?thesis
  proof (cases "hasUsableCoords cfg pos")
    case True
    then obtain p where "pos = Position p" using hasUsableCoords_Position by blast
    with Some True show ?thesis by (auto simp: handle_frame_usable)
  next
    case False
    with Some show ?thesis by (auto simp: handle_frame_unusable)
  qed
qed

lemma handle_frames_dom:
  "dom (lastPositions st) \<subseteq> dom (lastPositions (handle_frames cfg st tfs))"
proof (induction tfs arbitrary: st)
  case Nil
  show ?case by (simp add: handle_frames_def)
next
  case (Cons tf tfs)
  obtain now frame where tf: "tf = (now, frame)" by (cases tf)
  have "dom (lastPositions st) \<subseteq> dom (lastPositions (handle_frame cfg now st frame))"
    by (rule handle_frame_dom)
  also have "\<dots> \<subseteq> dom (lastPositions (handle_frames cfg (handle_frame cfg now st frame) tfs))"
    by (rule Cons.IH)
  finally show ?case by (simp add: handle_frames_def tf)
qed

text \<open>
  Claim C8. Processing a single decoded frame changes at most the entry of
  \<open>lastPositions\<close> whose key is that frame's \<open>deviceId\<close>: the entry of every other device is
  unchanged (and a frame that does not decode changes nothing). No key is ever removed,
  so a device identifier that is present stays present after every later frame.
\<close>

theorem store_frame_effect:
  "(parseFrame now frame = Some pos \<longrightarrow>
      (\<forall>k. k \<noteq> deviceId_of pos \<longrightarrow>
         lastPositions (handle_frame cfg now st frame) k = lastPositions st k))
   \<and> (parseFrame now frame = None \<longrightarrow> handle_frame cfg now st frame = st)
   \<and> dom (lastPositions st) \<subseteq> dom (lastPositions (handle_frame cfg now st frame))
   \<and> (\<forall>k \<in> dom (lastPositions st). k \<in> dom (lastPositions (handle_frames cfg st tfs)))"
proof -
  have "lastPositions (handle_frame cfg now st frame) k = lastPositions st k"
    if "parseFrame now frame = Some pos" "k \<noteq> deviceId_of pos" for k
    using that by (rule handle_frame_other_keys)
  moreover have "handle_frame cfg now st frame = st" if "parseFrame now frame = None"
    using that by (rule handle_frame_undecoded)
  moreover note handle_frame_dom [of st cfg now frame]
  moreover have "\<forall>k \<in> dom (lastPositions st). k \<in> dom (lastPositions (handle_frames cfg st tfs))"
    using handle_frames_dom [of st cfg tfs] by blast
  ultimately show ?thesis by simp
qed

theorem store_frame_effect_witness:
  "parseFrame ''2025-01-01T12:00:02.000Z'' ''[SG*999*0002*LK,100]''
     = Some (Event \<lparr> deviceId = ''999'', vendor = ''SG'', cmd = ''LK'', raw = ''LK,100'' \<rparr>)
   \<and> ''123456'' \<noteq> deviceId_of (Event \<lparr> deviceId = ''999'', vendor = ''SG'', cmd = ''LK'', raw = ''LK,100'' \<rparr>)
   \<and> lastPositions
         (handle_frame default_config ''2025-01-01T12:00:02.000Z''
            (handle_frame default_config ''2025-01-01T12:00:01.000Z'' initial_state
               ''[SG*123456*0002*LK,100]'')
            ''[SG*999*0002*LK,100]'') ''123456''
       = Some \<lparr> pos_fields = None, lastEvent = Some (Event
           \<lparr> deviceId = ''123456'', vendor = ''SG'', cmd = ''LK'', raw = ''LK,100'' \<rparr>) \<rparr>
   \<and> parseFrame ''2025-01-01T12:00:02.000Z'' ''[SG*123456]'' = None
   \<and> handle_frame default_config ''2025-01-01T12:00:02.000Z''
         (handle_frame default_config ''2025-01-01T12:00:01.000Z'' initial_state
            ''[SG*123456*0002*LK,100]'') ''[SG*123456]''
       = handle_frame default_config ''2025-01-01T12:00:01.000Z'' initial_state
            ''[SG*123456*0002*LK,100]''
   \<and> ''123456'' \<in> dom (lastPositions
         (handle_frame default_config ''2025-01-01T12:00:01.000Z'' initial_state
            ''[SG*123456*0002*LK,100]''))
   \<and> ''123456'' \<in> dom (lastPositions
         (handle_frames default_config
            (handle_frame default_config ''2025-01-01T12:00:01.000Z'' initial_state
               ''[SG*123456*0002*LK,100]'')
            [(''2025-01-01T12:00:02.000Z'', ''[SG*999*0002*LK,100]''),
             (''2025-01-01T12:00:03.000Z'', ''[SG*123456]'')]))"
proof -
  let ?now1 = "''2025-01-01T12:00:01.000Z''"
  let ?now2 = "''2025-01-01T12:00:02.000Z''"
  let ?e1 = "\<lparr> deviceId = ''123456'', vendor = ''SG'', cmd = ''LK'', raw = ''LK,100'' \<rparr>"
  let ?e2 = "\<lparr> deviceId = ''999'', vendor = ''SG'', cmd = ''LK'', raw = ''LK,100'' \<rparr>"
  let ?st1 = "handle_frame default_config ?now1 initial_state ''[SG*123456*0002*LK,100]''"
  let ?tfs = "[(?now2, ''[SG*999*0002*LK,100]''), (''2025-01-01T12:00:03.000Z'', ''[SG*123456]'')]"
  have p2: "parseFrame ?now2 ''[SG*999*0002*LK,100]'' = Some (Event ?e2)"
    by (simp add: parseFrame_def slice_def Let_def)
  have ev: "\<not> hasUsableCoords default_config (Event e)" for e
    by (simp add: hasUsableCoords_def)
  have st1: "lastPositions ?st1 ''123456'' = Some \<lparr> pos_fields = None, lastEvent = Some (Event ?e1) \<rparr>"
    using handle_frame_unusable [OF parseFrame_event [of ?now1] ev, of initial_state]
    by (simp add: initial_state_def merge_lastEvent_def)
  note th = store_frame_effect [where now = ?now2 and cfg = default_config and st = ?st1
      and tfs = ?tfs]
  have a: "lastPositions (handle_frame default_config ?now2 ?st1 ''[SG*999*0002*LK,100]'') ''123456''
       = Some \<lparr> pos_fields = None, lastEvent = Some (Event ?e1) \<rparr>"
    using th [where frame = "''[SG*999*0002*LK,100]''" and pos = "Event ?e2"] p2 st1 by simp
  have b: "handle_frame default_config ?now2 ?st1 ''[SG*123456]'' = ?st1"
    using th [where frame = "''[SG*123456]''" and pos = "Event ?e2"]
    by (simp add: parseFrame_too_short)
  have d: "''123456'' \<in> dom (lastPositions ?st1)" using st1 by blast
  have c: "''123456'' \<in> dom (lastPositions (handle_frames default_config ?st1 ?tfs))"
    using th [where frame = "''[SG*123456]''" and pos = "Event ?e2"] d by blast
  show ?thesis using p2 a b c d by (simp add: parseFrame_too_short)
qed

section \<open>The outbound request\<close>

lemma toISOString_nonempty: "toISOString tv \<noteq> []"
  by (simp add: toISOString_def Let_def split: prod.splits)

lemma toIso_nonempty: "toIso dmy hms = Some t \<Longrightarrow> t \<noteq> []"
  by (auto simp: toIso_def Let_def toISOString_nonempty split: if_splits option.splits)

lemma parseFrame_time_nonempty:
  "parseFrame now frame = Some (Position p) \<Longrightarrow> time p = Some t \<Longrightarrow> t \<noteq> []"
  by (auto simp: parseFrame_def Let_def split: if_splits dest: toIso_nonempty)

lemma forward_params_list:
  assumes "\<And>t. time pos = Some t \<Longrightarrow> t \<noteq> []"
  shows "forward_params pos
     = [(''id'', deviceId pos), (''lat'', String_of (lat pos)), (''lon'', String_of (lon pos))]
       @ (case time pos of Some t \<Rightarrow> [(''timestamp'', t)] | None \<Rightarrow> [])
       @ [(''valid'', if valid pos then ''true'' else ''false'')]
       @ (case speedKph pos of
            Some kph \<Rightarrow> [(''speed'', toFixed (num_mul kph (round64 (539956803 / 1000000000))) 2)]
          | None \<Rightarrow> [])
       @ (case course pos of Some c \<Rightarrow> [(''bearing'', numToString c)] | None \<Rightarrow> [])"
proof -
  have t: "time pos = None \<or> (\<exists>t. time pos = Some t \<and> t \<noteq> [])"
    using assms by (cases "time pos") auto
  then show ?thesis
    by (cases "speedKph pos"; cases "course pos")
      (auto simp: forward_params_def params_set_def kphToKnots_def)
qed

text \<open>
  The decimal numeral of a natural number is a non-empty string of digits, and from 100 on
  it is the numeral of the hundreds followed by the last two digits.
\<close>

lemma is_digit_digit_char: "n < 10 \<Longrightarrow> is_digit (digit_char n)"
  by (auto simp: is_digit_def digit_char_def numeral_eq_Suc less_Suc_eq)

lemma decimal_digits: "decimal n \<noteq> [] \<and> list_all is_digit (decimal n)"
proof (induction n rule: decimal.induct)
  case (1 n)
  show ?case
  proof (cases "n < 10")
    case True
    then show ?thesis by (simp add: decimal.simps [of n] is_digit_digit_char)
  next
    case False
    then show ?thesis
      using 1 by (simp add: decimal.simps [of n] is_digit_digit_char)
  qed
qed

lemma decimal_small: "n < 10 \<Longrightarrow> decimal n = [digit_char n]"
  by (simp add: decimal.simps [of n])

lemma decimal_two: "10 \<le> n \<Longrightarrow> n < 100 \<Longrightarrow> decimal n = [digit_char (n div 10), digit_char (n mod 10)]"
  by (simp add: decimal.simps [of n] decimal_small)

lemma decimal_split:
  "100 \<le> n \<Longrightarrow> decimal n = decimal (n div 100) @ [digit_char (n div 10 mod 10), digit_char (n mod 10)]"
proof -
  assume n: "100 \<le> n"
  then have "decimal n = decimal (n div 10) @ [digit_char (n mod 10)]"
    by (simp add: decimal.simps [of n])
  moreover have "decimal (n div 10) = decimal (n div 10 div 10) @ [digit_char (n div 10 mod 10)]"
    using n by (simp add: decimal.simps [of "n div 10"])
  moreover have "n div 10 div 10 = n div 100" by (simp add: div_mult2_eq)
  ultimately show ?thesis by simp
qed

lemma length_decimal_large: "100 \<le> n \<Longrightarrow> 2 < length (decimal n)"
proof -
  assume n: "100 \<le> n"
  have "decimal (n div 100) \<noteq> []" using decimal_digits [of "n div 100"] by simp
  then have "0 < length (decimal (n div 100))" by simp
  then show ?thesis by (simp add: decimal_split [OF n])
qed

text \<open>
  \<open>toFixed(2)\<close> of a finite number below \<open>10 ^ 21\<close> in magnitude: with \<open>n\<close> the magnitude
  in hundredths, rounded to the nearest integer (the larger on a tie), the result is the
  sign, the decimal numeral of \<open>n div 100\<close>, a point and the two digits of \<open>n mod 100\<close>.
\<close>

lemma toFixed_hundredths:
  assumes "\<bar>q\<bar> < 10 ^ 21"
  shows "toFixed (Fin q) 2
     = (if q < 0 then ''-'' else '''')
       @ decimal (nat \<lfloor>\<bar>q\<bar> * 100 + 1 / 2\<rfloor> div 100)
       @ [CHR ''.'', digit_char (nat \<lfloor>\<bar>q\<bar> * 100 + 1 / 2\<rfloor> div 10 mod 10),
          digit_char (nat \<lfloor>\<bar>q\<bar> * 100 + 1 / 2\<rfloor> mod 10)]"
proof -
  define n where "n = nat \<lfloor>\<bar>q\<bar> * 100 + 1 / 2\<rfloor>"
  define m where "m = (if length (decimal n) \<le> 2
      then replicate (2 + 1 - length (decimal n)) CHR ''0'' @ decimal n else decimal n)"
  define s where "s = (if q < 0 then ''-'' else '''')"
  have eq: "toFixed (Fin q) 2 = s @ take (length m - 2) m @ ''.'' @ drop (length m - 2) m"
    using assms by (simp add: toFixed_def Let_def m_def n_def s_def)
  have m: "m = decimal (n div 100) @ [digit_char (n div 10 mod 10), digit_char (n mod 10)]"
  proof -
    consider "n < 10" | "10 \<le> n" "n < 100" | "100 \<le> n" by linarith
    then show ?thesis
    proof cases
      case 1
      then show ?thesis by (simp add: m_def decimal_small digit_char_def numeral_2_eq_2)
    next
      case 2
      then show ?thesis by (simp add: m_def decimal_two decimal_small digit_char_def)
    next
      case 3
      then show ?thesis using length_decimal_large [of n] by (simp add: m_def decimal_split [of n])
    qed
  qed
  have "take (length m - 2) m = decimal (n div 100)" "drop (length m - 2) m
      = [digit_char (n div 10 mod 10), digit_char (n mod 10)]"
    by (simp_all add: m)
  then show ?thesis
    by (simp only: eq s_def n_def) simp
qed

lemma two_decimal_places_shape:
  assumes "ds \<noteq> []" "list_all is_digit ds" "is_digit a" "is_digit b"
  shows "two_decimal_places (ds @ [CHR ''.'', a, b])"
    and "two_decimal_places (''-'' @ ds @ [CHR ''.'', a, b])"
proof -
  define t where "t = ds @ [CHR ''.'', a, b]"
  have nm: "take 1 t \<noteq> ''-''"
    using assms(1,2) by (cases ds) (auto simp: t_def is_digit_def)
  have k: "length t - 3 = length ds" "length t - 2 = Suc (length ds)" "4 \<le> length t"
    using assms(1) by (cases ds; simp add: t_def)+
  have core: "list_all is_digit (take (length t - 3) t)" "t ! (length t - 3) = CHR ''.''"
    "list_all is_digit (drop (length t - 2) t)"
    using assms by (simp_all only: k) (simp_all add: t_def nth_append)
  have plain: "two_decimal_places t"
    using nm k(3) core by (simp add: two_decimal_places_def Let_def)
  have "take 1 (''-'' @ t) = ''-''" "drop 1 (''-'' @ t) = t" by simp_all
  then have minus: "two_decimal_places (''-'' @ t)"
    using k(3) core by (simp add: two_decimal_places_def Let_def)
  show "two_decimal_places (ds @ [CHR ''.'', a, b])" using plain by (simp only: t_def)
  show "two_decimal_places (''-'' @ ds @ [CHR ''.'', a, b])" using minus by (simp only: t_def)
qed

lemma toFixed_two_decimal_places:
  assumes "\<bar>q\<bar> < 10 ^ 21"
  shows "two_decimal_places (toFixed (Fin q) 2)"
proof -
  define n where "n = nat \<lfloor>\<bar>q\<bar> * 100 + 1 / 2\<rfloor>"
  have d: "decimal (n div 100) \<noteq> []" "list_all is_digit (decimal (n div 100))"
    using decimal_digits [of "n div 100"] by simp_all
  have ab: "is_digit (digit_char (n div 10 mod 10))" "is_digit (digit_char (n mod 10))"
    by (simp_all add: is_digit_digit_char)
  show ?thesis
    using two_decimal_places_shape [OF d ab]
    by (cases "q < 0") (simp_all only: toFixed_hundredths [OF assms] n_def [symmetric] if_True if_False append_Nil)
qed

text \<open>
  The speed \<open>1e22\<close> km/h, evaluated step by step: the product with the double nearest
  \<open>0.539956803\<close> is the double \<open>5399568030000000008192\<close>, whose shortest digit string
  that converts back to it is \<open>539956803\<close> with exponent 21.
\<close>

lemma round64_1e22: "round64 10000000000000000000000 = Fin 10000000000000000000000"
  by code_simp

lemma toNumber_1e22: "toNumber ''1e22'' = Fin 10000000000000000000000"
  by (simp add: toNumber_defs round64_1e22)

lemma round64_factor:
  "round64 (539956803 / 1000000000) = Fin (4863498513573929 / 9007199254740992)"
  by code_simp

lemma round64_knots_1e22:
  "round64 (10000000000000000000000 * (4863498513573929 / 9007199254740992))
     = Fin 5399568030000000008192"
  by code_simp

lemma kphToKnots_1e22:
  "kphToKnots (Fin 10000000000000000000000) = Fin 5399568030000000008192"
  by (simp only: kphToKnots_def round64_factor num_mul.simps round64_knots_1e22)

lemma ilog_knots_1e22: "ilog 10 5399568030000000008192 = 21"
  by code_simp

lemma shortest_knots_1e22:
  "shortest 5399568030000000008192 (ilog 10 5399568030000000008192 + 1) 1 17
     = Some (539956803, 22)"
  by code_simp

lemma decimal_539956803: "decimal 539956803 = ''539956803''"
  by (simp add: decimal.simps digit_char_def)

lemma decimal_21: "decimal 21 = ''21''"
  by (simp add: decimal.simps digit_char_def)

lemma numToString_knots_1e22:
  "numToString (Fin 5399568030000000008192) = ''5.39956803e+21''"
proof -
  have "positive_toString 5399568030000000008192 = format_digits (decimal (nat 539956803)) 22"
    by (simp only: positive_toString_def shortest_knots_1e22 option.case prod.case)
  also have "\<dots> = ''5.39956803e+21''"
    by (simp add: decimal_539956803 format_digits_def decimal_21)
  finally show ?thesis by simp
qed

lemma speed_1e22: "toFixed (kphToKnots (Fin 10000000000000000000000)) 2 = ''5.39956803e+21''"
  by (simp add: kphToKnots_1e22 toFixed_def numToString_knots_1e22 del: numToString.simps)

text \<open>
  Claim C9, with the bound it needs. For every forwarded position record (a record that
  \<open>parseFrame\<close> produced), the request is a \<open>GET\<close> of \<open>FORWARD_URL\<close> with a query that
  carries \<open>id\<close>, \<open>lat\<close> and \<open>lon\<close> always; \<open>timestamp\<close>, the ISO time, exactly when \<open>time\<close>
  is not \<open>null\<close>; \<open>valid\<close> as \<open>true\<close> or \<open>false\<close>; \<open>speed\<close> exactly when \<open>speedKph\<close> is not
  \<open>null\<close>, computed as \<open>speedKph\<close> times \<open>0.539956803\<close>; and \<open>bearing\<close> exactly when
  \<open>course\<close> is not \<open>null\<close>; in this order, and with the one header
  \<open>User-Agent: tk905-forwarder/1.0\<close>. When the speed in knots is below \<open>10 ^ 21\<close> in
  magnitude, \<open>speed\<close> is printed with two decimals: an optional minus sign, the integer
  part, a point and two digits, which together are the magnitude rounded to the nearest
  hundredth. From \<open>10 ^ 21\<close> on, \<open>toFixed\<close> prints the number as \<open>String\<close> does, in exponent
  notation (theorem \<open>speed_exponent_notation\<close> below).
\<close>

theorem forwardPosition_request:
  "parseFrame now frame = Some (Position pos) \<longrightarrow>
     forward_params pos
       = [(''id'', deviceId pos), (''lat'', String_of (lat pos)), (''lon'', String_of (lon pos))]
         @ (case time pos of Some t \<Rightarrow> [(''timestamp'', t)] | None \<Rightarrow> [])
         @ [(''valid'', if valid pos then ''true'' else ''false'')]
         @ (case speedKph pos of
              Some kph \<Rightarrow> [(''speed'', toFixed (num_mul kph (round64 (539956803 / 1000000000))) 2)]
            | None \<Rightarrow> [])
         @ (case course pos of Some c \<Rightarrow> [(''bearing'', numToString c)] | None \<Rightarrow> [])
     \<and> (speedKph pos = Some kph \<and> num_mul kph (round64 (539956803 / 1000000000)) = Fin q
          \<and> \<bar>q\<bar> < 10 ^ 21 \<longrightarrow>
            two_decimal_places (toFixed (num_mul kph (round64 (539956803 / 1000000000))) 2)
            \<and> toFixed (num_mul kph (round64 (539956803 / 1000000000))) 2
                = (if q < 0 then ''-'' else [])
                  @ decimal (nat \<lfloor>\<bar>q\<bar> * 100 + 1 / 2\<rfloor> div 100)
                  @ [CHR ''.'', digit_char (nat \<lfloor>\<bar>q\<bar> * 100 + 1 / 2\<rfloor> div 10 mod 10),
                     digit_char (nat \<lfloor>\<bar>q\<bar> * 100 + 1 / 2\<rfloor> mod 10)])
     \<and> forwardPosition cfg pos
         = \<lparr> http_method = ''GET'',
             url = FORWARD_URL cfg @ ''?'' @ serialize (forward_params pos),
             headers = [(''User-Agent'', ''tk905-forwarder/1.0'')] \<rparr>"
proof
  assume pf: "parseFrame now frame = Some (Position pos)"
  have "\<And>t. time pos = Some t \<Longrightarrow> t \<noteq> []"
    using parseFrame_time_nonempty [OF pf] .
  note params = forward_params_list [OF this]
  have two: "two_decimal_places (toFixed (num_mul kph (round64 (539956803 / 1000000000))) 2)
      \<and> toFixed (num_mul kph (round64 (539956803 / 1000000000))) 2
          = (if q < 0 then ''-'' else [])
            @ decimal (nat \<lfloor>\<bar>q\<bar> * 100 + 1 / 2\<rfloor> div 100)
            @ [CHR ''.'', digit_char (nat \<lfloor>\<bar>q\<bar> * 100 + 1 / 2\<rfloor> div 10 mod 10),
               digit_char (nat \<lfloor>\<bar>q\<bar> * 100 + 1 / 2\<rfloor> mod 10)]"
    if "num_mul kph (round64 (539956803 / 1000000000)) = Fin q" "\<bar>q\<bar> < 10 ^ 21"
    using toFixed_two_decimal_places [OF that(2)] toFixed_hundredths [OF that(2)]
    by (simp only: that(1))
  have req: "forwardPosition cfg pos
         = \<lparr> http_method = ''GET'',
             url = FORWARD_URL cfg @ ''?'' @ serialize (forward_params pos),
             headers = [(''User-Agent'', ''tk905-forwarder/1.0'')] \<rparr>"
    by (simp add: forwardPosition_def)
  show "forward_params pos
       = [(''id'', deviceId pos), (''lat'', String_of (lat pos)), (''lon'', String_of (lon pos))]
         @ (case time pos of Some t \<Rightarrow> [(''timestamp'', t)] | None \<Rightarrow> [])
         @ [(''valid'', if valid pos then ''true'' else ''false'')]
         @ (case speedKph pos of
              Some kph \<Rightarrow> [(''speed'', toFixed (num_mul kph (round64 (539956803 / 1000000000))) 2)]
            | None \<Rightarrow> [])
         @ (case course pos of Some c \<Rightarrow> [(''bearing'', numToString c)] | None \<Rightarrow> [])
     \<and> (speedKph pos = Some kph \<and> num_mul kph (round64 (539956803 / 1000000000)) = Fin q
          \<and> \<bar>q\<bar> < 10 ^ 21 \<longrightarrow>
            two_decimal_places (toFixed (num_mul kph (round64 (539956803 / 1000000000))) 2)
            \<and> toFixed (num_mul kph (round64 (539956803 / 1000000000))) 2
                = (if q < 0 then ''-'' else [])
                  @ decimal (nat \<lfloor>\<bar>q\<bar> * 100 + 1 / 2\<rfloor> div 100)
                  @ [CHR ''.'', digit_char (nat \<lfloor>\<bar>q\<bar> * 100 + 1 / 2\<rfloor> div 10 mod 10),
                     digit_char (nat \<lfloor>\<bar>q\<bar> * 100 + 1 / 2\<rfloor> mod 10)])
     \<and> forwardPosition cfg pos
         = \<lparr> http_method = ''GET'',
             url = FORWARD_URL cfg @ ''?'' @ serialize (forward_params pos),
             headers = [(''User-Agent'', ''tk905-forwarder/1.0'')] \<rparr>"
    using params two req by blast
qed

lemma numToString_examples:
  "numToString (Fin (45 / 2)) = ''22.5''"
  "numToString (Fin (4014536855335731 / 35184372088832)) = ''114.1''"
  "numToString (Fin 90) = ''90''"
  by code_simp+

lemma knots_example:
  "num_mul (Fin 36) (round64 (539956803 / 1000000000))
     = Fin (2735717913885335 / 140737488355328)"
  by code_simp

lemma speed_example: "toFixed (Fin (2735717913885335 / 140737488355328)) 2 = ''19.44''"
  by code_simp

lemma serialize_example:
  "serialize [(''id'', ''123456''), (''lat'', ''22.5''), (''lon'', ''114.1''),
        (''timestamp'', ''2025-01-01T12:00:00.000Z''), (''valid'', ''true''),
        (''speed'', ''19.44''), (''bearing'', ''90'')]
     = ''id=123456&lat=22.5&lon=114.1&timestamp=2025-01-01T12%3A00%3A00.000Z&valid=true&speed=19.44&bearing=90''"
  by code_simp

theorem forwardPosition_request_witness:
  "parseFrame ''2025-01-01T12:00:01.000Z''
       ''[SG*123456*XX*GPS,010125,120000,A,22.5,N,114.1,E,36.0,90]''
     = Some (Position
         \<lparr> deviceId = ''123456'', vendor = ''SG'', cmd = ''GPS'',
           raw = ''GPS,010125,120000,A,22.5,N,114.1,E,36.0,90'',
           time = Some ''2025-01-01T12:00:00.000Z'', valid = True,
           lat = Some (Fin (45 / 2)), lon = Some (Fin (4014536855335731 / 35184372088832)),
           speedKph = Some (Fin 36), course = Some (Fin 90),
           receivedAt = ''2025-01-01T12:00:01.000Z'' \<rparr>)
   \<and> num_mul (Fin 36) (round64 (539956803 / 1000000000))
       = Fin (2735717913885335 / 140737488355328)
   \<and> \<bar>2735717913885335 / 140737488355328 :: rat\<bar> < 10 ^ 21
   \<and> toFixed (num_mul (Fin 36) (round64 (539956803 / 1000000000))) 2 = ''19.44''
   \<and> two_decimal_places ''19.44''
   \<and> forwardPosition default_config
         \<lparr> deviceId = ''123456'', vendor = ''SG'', cmd = ''GPS'',
           raw = ''GPS,010125,120000,A,22.5,N,114.1,E,36.0,90'',
           time = Some ''2025-01-01T12:00:00.000Z'', valid = True,
           lat = Some (Fin (45 / 2)), lon = Some (Fin (4014536855335731 / 35184372088832)),
           speedKph = Some (Fin 36), course = Some (Fin 90),
           receivedAt = ''2025-01-01T12:00:01.000Z'' \<rparr>
       = \<lparr> http_method = ''GET'',
           url = ''https://backend.sps-global.com.mx/api/osmand?id=123456&lat=22.5&lon=114.1&timestamp=2025-01-01T12%3A00%3A00.000Z&valid=true&speed=19.44&bearing=90'',
           headers = [(''User-Agent'', ''tk905-forwarder/1.0'')] \<rparr>"
proof -
  let ?now = "''2025-01-01T12:00:01.000Z''"
  let ?r = "\<lparr> deviceId = ''123456'', vendor = ''SG'', cmd = ''GPS'',
           raw = ''GPS,010125,120000,A,22.5,N,114.1,E,36.0,90'',
           time = Some ''2025-01-01T12:00:00.000Z'', valid = True,
           lat = Some (Fin (45 / 2)), lon = Some (Fin (4014536855335731 / 35184372088832)),
           speedKph = Some (Fin 36), course = Some (Fin 90),
           receivedAt = ?now \<rparr>"
  note pf = parseFrame_example [of ?now]
  have small: "\<bar>2735717913885335 / 140737488355328 :: rat\<bar> < 10 ^ 21" by simp
  note inst = forwardPosition_request [of ?now
      "''[SG*123456*XX*GPS,010125,120000,A,22.5,N,114.1,E,36.0,90]''" ?r "Fin 36"
      "2735717913885335 / 140737488355328" default_config]
  have sp: "speedKph ?r = Some (Fin 36)" by simp
  have "two_decimal_places (toFixed (num_mul (Fin 36) (round64 (539956803 / 1000000000))) 2)"
    using inst pf sp knots_example small by blast
  then have two: "two_decimal_places ''19.44''"
    by (simp only: knots_example speed_example)
  have params: "forward_params ?r
       = [(''id'', deviceId ?r), (''lat'', String_of (lat ?r)), (''lon'', String_of (lon ?r))]
         @ (case time ?r of Some t \<Rightarrow> [(''timestamp'', t)] | None \<Rightarrow> [])
         @ [(''valid'', if valid ?r then ''true'' else ''false'')]
         @ (case speedKph ?r of
              Some kph \<Rightarrow> [(''speed'', toFixed (num_mul kph (round64 (539956803 / 1000000000))) 2)]
            | None \<Rightarrow> [])
         @ (case course ?r of Some c \<Rightarrow> [(''bearing'', numToString c)] | None \<Rightarrow> [])"
    using inst pf by blast
  have req: "forwardPosition default_config ?r
       = \<lparr> http_method = ''GET'',
           url = FORWARD_URL default_config @ ''?'' @ serialize (forward_params ?r),
           headers = [(''User-Agent'', ''tk905-forwarder/1.0'')] \<rparr>"
    using inst pf by blast
  have "forwardPosition default_config ?r
       = \<lparr> http_method = ''GET'',
           url = FORWARD_URL default_config @ ''?'' @
             serialize [(''id'', ''123456''), (''lat'', ''22.5''), (''lon'', ''114.1''),
               (''timestamp'', ''2025-01-01T12:00:00.000Z''), (''valid'', ''true''),
               (''speed'', ''19.44''), (''bearing'', ''90'')],
           headers = [(''User-Agent'', ''tk905-forwarder/1.0'')] \<rparr>"
    by (simp only: req params)
      (simp add: String_of_def numToString_examples knots_example speed_example
        del: numToString.simps)
  then show ?thesis
    using pf two small
    by (simp add: serialize_example default_config_def knots_example speed_example)
qed

text \<open>
  The bound is needed. A frame whose speed field is \<open>1e22\<close> decodes to a usable, valid
  position, which the handler forwards under the default configuration; its speed in
  knots is \<open>5399568030000000008192\<close>, and \<open>toFixed(2)\<close> of a number that large is its
  \<open>String\<close>, so the \<open>speed\<close> parameter is \<open>5.39956803e+21\<close> and has no two decimals.
\<close>

lemma parseFrame_1e22:
  "parseFrame now ''[SG*9*0*UD,010125,120000,A,10,N,10,E,1e22,0]''
     = Some (Position
         \<lparr> deviceId = ''9'', vendor = ''SG'', cmd = ''UD'',
           raw = ''UD,010125,120000,A,10,N,10,E,1e22,0'',
           time = Some ''2025-01-01T12:00:00.000Z'', valid = True,
           lat = Some (Fin 10), lon = Some (Fin 10),
           speedKph = Some (Fin 10000000000000000000000), course = Some (Fin 0),
           receivedAt = now \<rparr>)"
  by (simp add: parseFrame_def slice_def Let_def toIso_noon signedCoord_def Number_isNaN_def
      finite_or_null_def toNumber_10 toNumber_1e22 toNumber_0)

lemma numToString_10: "numToString (Fin 10) = ''10''"
  by code_simp

lemma numToString_0: "numToString (Fin 0) = ''0''"
  by simp

theorem speed_exponent_notation:
  "parseFrame ''2025-01-01T12:00:01.000Z'' ''[SG*9*0*UD,010125,120000,A,10,N,10,E,1e22,0]''
     = Some (Position
         \<lparr> deviceId = ''9'', vendor = ''SG'', cmd = ''UD'',
           raw = ''UD,010125,120000,A,10,N,10,E,1e22,0'',
           time = Some ''2025-01-01T12:00:00.000Z'', valid = True,
           lat = Some (Fin 10), lon = Some (Fin 10),
           speedKph = Some (Fin 10000000000000000000000), course = Some (Fin 0),
           receivedAt = ''2025-01-01T12:00:01.000Z'' \<rparr>)
   \<and> forwarded (handle_frame default_config ''2025-01-01T12:00:01.000Z'' initial_state
         ''[SG*9*0*UD,010125,120000,A,10,N,10,E,1e22,0]'')
       = [forwardPosition default_config
            \<lparr> deviceId = ''9'', vendor = ''SG'', cmd = ''UD'',
              raw = ''UD,010125,120000,A,10,N,10,E,1e22,0'',
              time = Some ''2025-01-01T12:00:00.000Z'', valid = True,
              lat = Some (Fin 10), lon = Some (Fin 10),
              speedKph = Some (Fin 10000000000000000000000), course = Some (Fin 0),
              receivedAt = ''2025-01-01T12:00:01.000Z'' \<rparr>]
   \<and> forward_params
         \<lparr> deviceId = ''9'', vendor = ''SG'', cmd = ''UD'',
           raw = ''UD,010125,120000,A,10,N,10,E,1e22,0'',
           time = Some ''2025-01-01T12:00:00.000Z'', valid = True,
           lat = Some (Fin 10), lon = Some (Fin 10),
           speedKph = Some (Fin 10000000000000000000000), course = Some (Fin 0),
           receivedAt = ''2025-01-01T12:00:01.000Z'' \<rparr>
       = [(''id'', ''9''), (''lat'', ''10''), (''lon'', ''10''),
          (''timestamp'', ''2025-01-01T12:00:00.000Z''), (''valid'', ''true''),
          (''speed'', ''5.39956803e+21''), (''bearing'', ''0'')]
   \<and> \<not> two_decimal_places ''5.39956803e+21''"
proof -
  let ?now = "''2025-01-01T12:00:01.000Z''"
  let ?frame = "''[SG*9*0*UD,010125,120000,A,10,N,10,E,1e22,0]''"
  let ?p = "\<lparr> deviceId = ''9'', vendor = ''SG'', cmd = ''UD'',
           raw = ''UD,010125,120000,A,10,N,10,E,1e22,0'',
           time = Some ''2025-01-01T12:00:00.000Z'', valid = True,
           lat = Some (Fin 10), lon = Some (Fin 10),
           speedKph = Some (Fin 10000000000000000000000), course = Some (Fin 0),
           receivedAt = ?now \<rparr>"
  note pf = parseFrame_1e22 [of ?now]
  have usable: "hasUsableCoords default_config (Position ?p)"
    by (simp add: hasUsableCoords_def default_config_def)
  have fwd: "forwarded (handle_frame default_config ?now initial_state ?frame)
      = [forwardPosition default_config ?p]"
    using handle_frame_usable [OF pf usable, of initial_state]
    by (simp add: default_config_def initial_state_def)
  have params: "forward_params ?p
       = [(''id'', ''9''), (''lat'', ''10''), (''lon'', ''10''),
          (''timestamp'', ''2025-01-01T12:00:00.000Z''), (''valid'', ''true''),
          (''speed'', ''5.39956803e+21''), (''bearing'', ''0'')]"
    using speed_1e22 forward_params_list [of ?p]
    by (simp add: String_of_def numToString_10 numToString_0 kphToKnots_def del: numToString.simps)
  have "\<not> two_decimal_places ''5.39956803e+21''"
    by (simp add: two_decimal_places_def is_digit_def)
  then show ?thesis using pf fwd params by simp
qed

end
